theory Spec2Isabelle
  imports
    Complex_Main
    "HOL-Library.Char_ord"
    "HOL-Library.List_Lexorder"
    "HOL-Library.Multiset"
    "HOL-Library.Signed_Division"
begin

section \<open>The session object of the coupling library (SolverInterfaceImpl)\<close>

text \<open>
  This theory embeds the participant-facing session object, class
  \<open>precice::impl::SolverInterfaceImpl\<close>, whose member functions are the source file
  \<open>SolverInterfaceImpl.cpp\<close>.  Each member function that the verified properties talk about is
  a HOL function of the same name over an explicit session state.

  Conventions of the embedding.
  \<^item> A C++ \<open>double\<close> is a \<open>real\<close>, an \<open>int\<close> is an \<open>int\<close>: no property below depends on rounding
    or on wrap-around.
  \<^item> A pointer to caller memory (\<open>const double *\<close>, \<open>const int *\<close>) is a function from the
    index to the element stored there.
  \<^item> Shared objects (meshes, data, mapping contexts, mapping objects) live in stores of the
    session state and are referred to by their ID or address, so that two places holding the
    same object see each other's updates and two places holding copies do not.
  \<^item> A member function returns a pair: the outcome (\<open>Inl\<close> an error, \<open>Inr\<close> the returned
    value) and the session state at the moment of returning or failing.
  \<^item> A call into a collaborator whose code is not part of this file (coupling scheme, mapping,
    partition, channel, exporter, watch point, action) appends an event to the \<open>trace\<close> of the
    state.  The numerical effect of such calls on meshes and data buffers is outside the model.
  \<^item> Logging, tracing macros and timing events have no counterpart.
\<close>

subsection \<open>Errors\<close>

text \<open>
  \<open>PRECICE_CHECK(cond, msg)\<close> ends the call with an error when \<open>cond\<close> is false.  The source has
  one macro for all checks; the error kinds are the classification of the specification
  (chapter 7).  \<open>PRECICE_ASSERT\<close> is compiled only without \<open>NDEBUG\<close> and is an \<open>InternalError\<close>
  there.  \<open>Undefined\<close> stands for behaviour C++ leaves undefined (a null pointer dereferenced, a
  division by zero, an access out of range).
\<close>

datatype ErrorKind =
  ConfigError | UsageError | StateError | ProtocolError | TransportError | InternalError | Undefined

type_synonym error = "ErrorKind \<times> string"

subsection \<open>Enumerations\<close>

text \<open>\<open>action::Action::Timing\<close>, from the header of the action base class.\<close>

datatype Timing =
  ALWAYS_PRIOR | ALWAYS_POST | ON_EXCHANGE_PRIOR | ON_EXCHANGE_POST | ON_TIMESTEP_COMPLETE_POST

text \<open>
  \<open>mapping::MappingConfiguration::Timing\<close>.  The declaration of the enumeration is not among the
  sources.  The dispatcher tests a timing for \<open>ON_ADVANCE\<close> and for \<open>INITIAL\<close> separately, so
  the model allows for a further value, \<open>ON_DEMAND\<close>.
\<close>

datatype MappingTiming = INITIAL | ON_ADVANCE | ON_DEMAND

subsection \<open>Calls into collaborators\<close>

datatype event =
    M2N_prepareEstablishment string
  | M2N_connectMasters string
  | M2N_connectSlaves string
  | M2N_cleanupEstablishment string
  | M2N_send string string
  | M2N_receive string string
  | M2N_closeConnection string
  | MS_send real int
  | MS_receive real int
  | MS_closeConnection
  | Partition_communicate int
  | Partition_compute int
  | Mesh_computeState int
  | Mesh_allocateDataValues int
  | WatchPoint_initialize nat
  | WatchPoint_exportPointData nat real
  | Cpl_initialize real int
  | Cpl_initializeData
  | Cpl_addComputedTime real
  | Cpl_advance
  | Cpl_finalize
  | Cpl_requireAction string
  | Mapping_computeMapping nat
  | Mapping_map nat int int
  | Mapping_clear nat
  | Data_zeroValues int
  | Action_performAction nat real real real real
  | Export_doExport string string int
  | MeshLock_lockAll

subsection \<open>Data model\<close>

text \<open>
  The observable state of a mapping object.  Modelled from the spec: class \<open>mapping::Mapping\<close> is
  not among the sources; its lifecycle is \<open>computeMapping\<close> / \<open>hasComputedMapping\<close> /
  \<open>map(inId, outId)\<close> / \<open>clear\<close>.
\<close>

record Mapping =
  hasComputedMapping :: bool

text \<open>
  \<open>impl::MappingContext\<close>.  The field \<open>mapping\<close> is a shared pointer to the mapping object:
  \<open>None\<close> is the null pointer, \<open>Some m\<close> the address \<open>m\<close> in the store of mapping objects.
\<close>

record MappingContext =
  mapping :: "nat option"
  fromMeshID :: int
  toMeshID :: int
  timing :: MappingTiming
  hasMappedData :: bool

text \<open>\<open>mesh::Data\<close>: a name, the dimensionality and the dense buffer of values.\<close>

record Data =
  data_name :: string
  data_dimensions :: int
  data_values :: "real list"

text \<open>\<open>mesh::Mesh\<close>: a name, the geometry and the IDs of the data sets living on the mesh.\<close>

record Mesh =
  mesh_name :: string
  vertices :: "real list list"
  edges :: "(int \<times> int) list"
  triangles :: "(int \<times> int \<times> int) list"
  quads :: "(int \<times> int \<times> int \<times> int) list"
  mesh_data :: "int list"

text \<open>
  \<open>impl::MeshContext\<close>.  \<open>mesh\<close> is the ID of the mesh; \<open>fromMappingContext\<close> and
  \<open>toMappingContext\<close> are the addresses of the two mapping contexts of the mesh context in the
  store of mapping contexts.
\<close>

record MeshContext =
  mesh :: int
  provideMesh :: bool
  receiveMeshFrom :: string
  fromMappingContext :: nat
  toMappingContext :: nat

text \<open>
  \<open>impl::DataContext\<close>.  \<open>fromData\<close> and \<open>toData\<close> are the IDs of the two data sets,
  \<open>mappingContext\<close> the address of the mapping context of the data context.
\<close>

record DataContext =
  fromData :: int
  toData :: int
  dc_mesh :: int
  mappingContext :: nat

record ExportContext =
  timestepInterval :: int
  everyIteration :: bool
  triggerSolverPlot :: bool
  location :: string

record BoundM2N =
  remoteName :: string
  isRequesting :: bool

text \<open>
  \<open>impl::Participant\<close>, as far as the session object reads it.  \<open>readMappingContexts\<close> and
  \<open>writeMappingContexts\<close> hold addresses of mapping contexts; \<open>dataContexts\<close> is the table
  behind \<open>dataContext(dataID)\<close>; an action is represented by its timing, a watch point by its
  position in the list of watch points.
\<close>

record Participant =
  usedMeshContexts :: "MeshContext list"
  readMappingContexts :: "nat list"
  writeMappingContexts :: "nat list"
  readDataContexts :: "DataContext list"
  writeDataContexts :: "DataContext list"
  dataContexts :: "int \<Rightarrow> DataContext option"
  actions :: "Timing list"
  exportContexts :: "ExportContext list"
  watchPoints :: nat

text \<open>
  The session object.  \<open>couplingScheme\<close> is the state of the coupling scheme object (\<open>None\<close>
  is the null pointer).  \<open>meshLock\<close> is the per-mesh flag "locked".  \<open>isMaster\<close> and \<open>isSlave\<close>
  are the static flags of \<open>utils::MasterSlave\<close>.  \<open>meshes\<close>, \<open>datas\<close>, \<open>mappingContexts\<close> and
  \<open>mappings\<close> are the object stores.
\<close>

record 'c SolverInterfaceImpl =
  accessorName :: string
  accessorProcessRank :: int
  accessorCommunicatorSize :: int
  dimensions :: int
  accessor :: Participant
  couplingScheme :: "'c option"
  meshLock :: "int \<Rightarrow> bool"
  m2ns :: "(string \<times> BoundM2N) list"
  numberAdvanceCalls :: int
  isMaster :: bool
  isSlave :: bool
  meshes :: "int \<Rightarrow> Mesh"
  datas :: "int \<Rightarrow> Data"
  mappingContexts :: "nat \<Rightarrow> MappingContext"
  mappings :: "nat \<Rightarrow> Mapping"
  trace :: "event list"

text \<open>
  The abstract class \<open>cplscheme::CouplingScheme\<close> as the table of its virtual member
  functions over the scheme's own state \<open>'c\<close>.  The five functions that drive the scheme may
  fail; the others are queries, and \<open>requireAction\<close> only registers a name.
\<close>

record 'c CouplingScheme =
  cs_initialize :: "real \<Rightarrow> int \<Rightarrow> 'c \<Rightarrow> error + 'c"
  cs_isInitialized :: "'c \<Rightarrow> bool"
  cs_initializeData :: "'c \<Rightarrow> error + 'c"
  cs_addComputedTime :: "real \<Rightarrow> 'c \<Rightarrow> error + 'c"
  cs_advance :: "'c \<Rightarrow> error + 'c"
  cs_finalize :: "'c \<Rightarrow> error + 'c"
  cs_hasTimestepLength :: "'c \<Rightarrow> bool"
  cs_getTimestepLength :: "'c \<Rightarrow> real"
  cs_getThisTimestepRemainder :: "'c \<Rightarrow> real"
  cs_getTime :: "'c \<Rightarrow> real"
  cs_getTimesteps :: "'c \<Rightarrow> int"
  cs_getNextTimestepMaxLength :: "'c \<Rightarrow> real"
  cs_isCouplingOngoing :: "'c \<Rightarrow> bool"
  cs_hasDataBeenExchanged :: "'c \<Rightarrow> bool"
  cs_willDataBeExchanged :: "real \<Rightarrow> 'c \<Rightarrow> bool"
  cs_isCouplingTimestepComplete :: "'c \<Rightarrow> bool"
  cs_requireAction :: "string \<Rightarrow> 'c \<Rightarrow> 'c"

text \<open>
  What the session object takes from outside: the build configuration (\<open>NDEBUG\<close> defined or
  not), the comparison \<open>math::equals\<close> of two doubles (its code is not among the sources), and
  what the channels deliver: \<open>ms_receive rank\<close> is the double the master receives from the
  slave \<open>rank\<close>, \<open>m2n_receive remote\<close> the string the master communication to the participant
  \<open>remote\<close> delivers.
\<close>

record Env =
  NDEBUG :: bool
  math_equals :: "real \<Rightarrow> real \<Rightarrow> bool"
  ms_receive :: "int \<Rightarrow> real"
  m2n_receive :: "string \<Rightarrow> string"

subsection \<open>Control structure\<close>

type_synonym ('a, 's) outcome = "(error + 'a) \<times> 's"

text \<open>A range-based \<open>for\<close> loop whose body may fail: the first failure ends the loop.\<close>

fun forEach :: "('a \<Rightarrow> 's \<Rightarrow> (unit, 's) outcome) \<Rightarrow> 'a list \<Rightarrow> 's \<Rightarrow> (unit, 's) outcome" where
  "forEach body [] s = (Inr (), s)"
| "forEach body (x # xs) s =
     (case body x s of
        (Inl e, s') \<Rightarrow> (Inl e, s')
      | (Inr _, s') \<Rightarrow> forEach body xs s')"

definition emit :: "event list \<Rightarrow> 'c SolverInterfaceImpl \<Rightarrow> 'c SolverInterfaceImpl" where
  "emit evs s = s\<lparr>trace := trace s @ evs\<rparr>"

definition nullPointer :: error where
  "nullPointer = (Undefined, ''null pointer dereferenced'')"

subsection \<open>The mapping dispatcher\<close>

text \<open>The three calls the dispatcher makes on a mapping object.\<close>

definition call_computeMapping :: "nat \<Rightarrow> 'c SolverInterfaceImpl \<Rightarrow> 'c SolverInterfaceImpl" where
  "call_computeMapping m s =
     emit [Mapping_computeMapping m]
       (s\<lparr>mappings := (mappings s)(m := (mappings s m)\<lparr>hasComputedMapping := True\<rparr>)\<rparr>)"

definition call_clear :: "nat \<Rightarrow> 'c SolverInterfaceImpl \<Rightarrow> 'c SolverInterfaceImpl" where
  "call_clear m s =
     emit [Mapping_clear m]
       (s\<lparr>mappings := (mappings s)(m := (mappings s m)\<lparr>hasComputedMapping := False\<rparr>)\<rparr>)"

definition call_map :: "nat \<Rightarrow> int \<Rightarrow> int \<Rightarrow> 'c SolverInterfaceImpl \<Rightarrow> 'c SolverInterfaceImpl" where
  "call_map m inDataID outDataID s = emit [Mapping_map m inDataID outDataID] s"

text \<open>
  \<open>data->values() = Eigen::VectorXd::Zero(data->values().size())\<close>.  The assignment is
  recorded in the trace as well, so that the trace shows a buffer being zeroed before the
  mapping writes into it.
\<close>

definition zeroValues :: "int \<Rightarrow> 'c SolverInterfaceImpl \<Rightarrow> 'c SolverInterfaceImpl" where
  "zeroValues dataID s =
     emit [Data_zeroValues dataID]
       (s\<lparr>datas := (datas s)(dataID :=
           (datas s dataID)\<lparr>data_values := replicate (length (data_values (datas s dataID))) 0\<rparr>)\<rparr>)"

text \<open>
  First loop of \<open>mapWrittenData\<close> and of \<open>mapReadData\<close>, one iteration: the mapping of the
  context at address \<open>a\<close> is computed if its timing is right and it has not been computed.
\<close>

definition computeMappingStep ::
  "nat \<Rightarrow> 'c SolverInterfaceImpl \<Rightarrow> (unit, 'c SolverInterfaceImpl) outcome" where
  "computeMappingStep a s =
     (let context = mappingContexts s a;
          rightTime = (timing context = ON_ADVANCE \<or> timing context = INITIAL)
      in case mapping context of
           None \<Rightarrow> (Inl nullPointer, s)
         | Some m \<Rightarrow>
             (let hasComputed = hasComputedMapping (mappings s m)
              in if rightTime \<and> \<not> hasComputed then (Inr (), call_computeMapping m s)
                 else (Inr (), s)))"

text \<open>
  Second loop, one iteration: the data of the context is mapped if the context carries a
  mapping, the timing is right and the flag \<open>hasMappedData\<close> of its mapping context is unset.
\<close>

definition mapDataStep ::
  "DataContext \<Rightarrow> 'c SolverInterfaceImpl \<Rightarrow> (unit, 'c SolverInterfaceImpl) outcome" where
  "mapDataStep context s =
     (let mc = mappingContexts s (mappingContext context);
          mapNow = (timing mc = ON_ADVANCE \<or> timing mc = INITIAL);
          hasMapped = hasMappedData mc
      in case mapping mc of
           None \<Rightarrow> (Inr (), s)
         | Some m \<Rightarrow>
             if mapNow \<and> \<not> hasMapped
             then (let inDataID = fromData context;
                       outDataID = toData context
                   in (Inr (), call_map m inDataID outDataID (zeroValues outDataID s)))
             else (Inr (), s))"

text \<open>
  Third loop, one iteration: a mapping that is not stationary is cleared, and the flag
  \<open>hasMappedData\<close> of the context is reset whatever the timing.
\<close>

definition setHasMappedData ::
  "nat \<Rightarrow> bool \<Rightarrow> 'c SolverInterfaceImpl \<Rightarrow> 'c SolverInterfaceImpl" where
  "setHasMappedData a b s =
     s\<lparr>mappingContexts := (mappingContexts s)(a := (mappingContexts s a)\<lparr>hasMappedData := b\<rparr>)\<rparr>"

definition clearMappingStep ::
  "nat \<Rightarrow> 'c SolverInterfaceImpl \<Rightarrow> (unit, 'c SolverInterfaceImpl) outcome" where
  "clearMappingStep a s =
     (let context = mappingContexts s a;
          isStationary = (timing context = INITIAL)
      in if \<not> isStationary
         then (case mapping context of
                 None \<Rightarrow> (Inl nullPointer, s)
               | Some m \<Rightarrow> (Inr (), setHasMappedData a False (call_clear m s)))
         else (Inr (), setHasMappedData a False s))"

definition mapWrittenData :: "'c SolverInterfaceImpl \<Rightarrow> (unit, 'c SolverInterfaceImpl) outcome" where
  "mapWrittenData s =
     (case forEach computeMappingStep (writeMappingContexts (accessor s)) s of
        (Inl e, s1) \<Rightarrow> (Inl e, s1)
      | (Inr _, s1) \<Rightarrow>
          (case forEach mapDataStep (writeDataContexts (accessor s1)) s1 of
             (Inl e, s2) \<Rightarrow> (Inl e, s2)
           | (Inr _, s2) \<Rightarrow> forEach clearMappingStep (writeMappingContexts (accessor s2)) s2))"

definition mapReadData :: "'c SolverInterfaceImpl \<Rightarrow> (unit, 'c SolverInterfaceImpl) outcome" where
  "mapReadData s =
     (case forEach computeMappingStep (readMappingContexts (accessor s)) s of
        (Inl e, s1) \<Rightarrow> (Inl e, s1)
      | (Inr _, s1) \<Rightarrow>
          (case forEach mapDataStep (readDataContexts (accessor s1)) s1 of
             (Inl e, s2) \<Rightarrow> (Inl e, s2)
           | (Inr _, s2) \<Rightarrow> forEach clearMappingStep (readMappingContexts (accessor s2)) s2))"

subsection \<open>Validation of IDs and the mesh lock\<close>

text \<open>\<open>Participant::meshContext(meshID)\<close>: the context of the used mesh with this ID.\<close>

definition meshContext :: "'c SolverInterfaceImpl \<Rightarrow> int \<Rightarrow> MeshContext option" where
  "meshContext s meshID = find (\<lambda>c. mesh c = meshID) (usedMeshContexts (accessor s))"

definition isDataRead :: "'c SolverInterfaceImpl \<Rightarrow> int \<Rightarrow> bool" where
  "isDataRead s dataID = list_ex (\<lambda>c. toData c = dataID) (readDataContexts (accessor s))"

definition isDataWrite :: "'c SolverInterfaceImpl \<Rightarrow> int \<Rightarrow> bool" where
  "isDataWrite s dataID = list_ex (\<lambda>c. fromData c = dataID) (writeDataContexts (accessor s))"

text \<open>
  Modelled from the spec: the validation macros (\<open>precice/impl/ValidationMacros.hpp\<close>) are not
  among the sources.  The spec: every entry point that takes a mesh ID validates it against
  the known set; for read and write operations it also checks that the participant uses (for
  reads) or modifies (for writes) the mesh or data in its configuration; adding geometry is
  rejected while the mesh is locked; every such failure is a \<open>UsageError\<close>.  A check is a
  function that returns the error, or \<open>None\<close> when it passes.
\<close>

definition PRECICE_VALIDATE_MESH_ID :: "int \<Rightarrow> 'c SolverInterfaceImpl \<Rightarrow> error option" where
  "PRECICE_VALIDATE_MESH_ID meshID s =
     (if meshContext s meshID = None
      then Some (UsageError, ''The given Mesh ID is unknown'') else None)"


definition PRECICE_VALIDATE_DATA_ID :: "int \<Rightarrow> 'c SolverInterfaceImpl \<Rightarrow> error option" where
  "PRECICE_VALIDATE_DATA_ID dataID s =
     (if dataContexts (accessor s) dataID = None
      then Some (UsageError, ''The given Data ID is unknown'') else None)"

definition PRECICE_REQUIRE_DATA_READ :: "int \<Rightarrow> 'c SolverInterfaceImpl \<Rightarrow> error option" where
  "PRECICE_REQUIRE_DATA_READ dataID s =
     (case PRECICE_VALIDATE_DATA_ID dataID s of
        Some e \<Rightarrow> Some e
      | None \<Rightarrow>
          if \<not> isDataRead s dataID
          then Some (UsageError, ''The participant does not read this data'') else None)"

definition PRECICE_REQUIRE_DATA_WRITE :: "int \<Rightarrow> 'c SolverInterfaceImpl \<Rightarrow> error option" where
  "PRECICE_REQUIRE_DATA_WRITE dataID s =
     (case PRECICE_VALIDATE_DATA_ID dataID s of
        Some e \<Rightarrow> Some e
      | None \<Rightarrow>
          if \<not> isDataWrite s dataID
          then Some (UsageError, ''The participant does not write this data'') else None)"

text \<open>
  Modelled from the spec: class \<open>MeshLock\<close> is not among the sources.  The spec: a per-mesh
  flag, unlocked during setup and by \<open>resetMesh\<close>, locked after \<open>initialize\<close> and at the end of
  each \<open>advance\<close>.
\<close>

definition lockAll :: "'c SolverInterfaceImpl \<Rightarrow> 'c SolverInterfaceImpl" where
  "lockAll s = emit [MeshLock_lockAll] (s\<lparr>meshLock := (\<lambda>_. True)\<rparr>)"

definition unlock :: "int \<Rightarrow> 'c SolverInterfaceImpl \<Rightarrow> 'c SolverInterfaceImpl" where
  "unlock meshID s = s\<lparr>meshLock := (meshLock s)(meshID := False)\<rparr>"

subsection \<open>Mesh geometry\<close>

text \<open>
  Modelled from the spec: class \<open>mesh::Mesh\<close> is not among the sources.  The spec: vertex IDs
  are dense \<open>0..N-1\<close> within a mesh; after \<open>allocateDataValues\<close> the buffer of every data set of
  the mesh has \<open>vertexCount * dimensionality\<close> entries; \<open>clear\<close> removes the geometry.
\<close>

definition resizeValues :: "nat \<Rightarrow> real list \<Rightarrow> real list" where
  "resizeValues n vs = take n vs @ replicate (n - length vs) 0"

definition allocateDataValues :: "int \<Rightarrow> 'c SolverInterfaceImpl \<Rightarrow> 'c SolverInterfaceImpl" where
  "allocateDataValues meshID s =
     fold (\<lambda>d t. t\<lparr>datas := (datas t)(d := (datas t d)\<lparr>data_values :=
              resizeValues
                (nat (int (length (vertices (meshes t meshID))) * data_dimensions (datas t d)))
                (data_values (datas t d))\<rparr>)\<rparr>)
       (mesh_data (meshes s meshID)) s"


definition clearMesh :: "int \<Rightarrow> 'c SolverInterfaceImpl \<Rightarrow> 'c SolverInterfaceImpl" where
  "clearMesh meshID s =
     s\<lparr>meshes := (meshes s)(meshID :=
          (meshes s meshID)\<lparr>vertices := [], edges := [], triangles := [], quads := []\<rparr>)\<rparr>"

text \<open>\<open>SolverInterfaceImpl::resetMesh\<close>\<close>

definition resetMesh ::
  "int \<Rightarrow> 'c SolverInterfaceImpl \<Rightarrow> (unit, 'c SolverInterfaceImpl) outcome" where
  "resetMesh meshID s =
     (case PRECICE_VALIDATE_MESH_ID meshID s of
        Some e \<Rightarrow> (Inl e, s)
      | None \<Rightarrow>
          (case meshContext s meshID of
             None \<Rightarrow> (Inl nullPointer, s)
           | Some context \<Rightarrow>
               (let from = mappingContexts s (fromMappingContext context);
                    to = mappingContexts s (toMappingContext context);
                    hasMapping = (mapping from \<noteq> None \<or> mapping to \<noteq> None);
                    isStationary = (timing from = INITIAL \<and> timing to = INITIAL)
                in if isStationary
                   then (Inl (UsageError, ''A mesh with only initial mappings  must not be reseted''), s)
                   else if \<not> hasMapping
                   then (Inl (UsageError, ''A mesh with no mappings must not be reseted''), s)
                   else (Inr (), clearMesh (mesh context) (unlock meshID s)))))"


subsection \<open>Writing and reading data\<close>

text \<open>\<open>PRECICE_ASSERT(cond)\<close>: checked only in a build without \<open>NDEBUG\<close>.\<close>

definition PRECICE_ASSERT :: "Env \<Rightarrow> bool \<Rightarrow> error option" where
  "PRECICE_ASSERT E cond =
     (if \<not> NDEBUG E \<and> \<not> cond then Some (InternalError, ''assertion failed'') else None)"

text \<open>
  \<open>PRECICE_CHECK(0 <= valueIndex && valueIndex < size / dims, "Value index out of range")\<close>:
  the conjunction is evaluated left to right, the division truncates, and a division by zero
  is undefined.
\<close>

definition checkValueIndex :: "int \<Rightarrow> int \<Rightarrow> int \<Rightarrow> error option" where
  "checkValueIndex valueIndex size' dims =
     (if \<not> 0 \<le> valueIndex then Some (UsageError, ''Value index out of range'')
      else if dims = 0 then Some (Undefined, ''division by zero'')
      else if valueIndex < size' sdiv dims then None
      else Some (UsageError, ''Value index out of range''))"

text \<open>\<open>data->values()[k] = v\<close> and \<open>data->values()[k]\<close>; outside the buffer both are undefined.\<close>

definition storeValue ::
  "int \<Rightarrow> int \<Rightarrow> real \<Rightarrow> 'c SolverInterfaceImpl \<Rightarrow> (unit, 'c SolverInterfaceImpl) outcome" where
  "storeValue dataID k v s =
     (let vals = data_values (datas s dataID)
      in if 0 \<le> k \<and> k < int (length vals)
         then (Inr (), s\<lparr>datas := (datas s)(dataID :=
                 (datas s dataID)\<lparr>data_values := vals[nat k := v]\<rparr>)\<rparr>)
         else (Inl (Undefined, ''access out of range''), s))"

definition loadValue :: "'c SolverInterfaceImpl \<Rightarrow> int \<Rightarrow> int \<Rightarrow> error + real" where
  "loadValue s dataID k =
     (let vals = data_values (datas s dataID)
      in if 0 \<le> k \<and> k < int (length vals) then Inr (vals ! nat k)
         else Inl (Undefined, ''access out of range''))"

text \<open>\<open>SolverInterfaceImpl::writeBlockVectorData\<close>\<close>

definition writeBlockVectorData ::
  "Env \<Rightarrow> int \<Rightarrow> int \<Rightarrow> (nat \<Rightarrow> int) \<Rightarrow> (nat \<Rightarrow> real) \<Rightarrow> 'c SolverInterfaceImpl
     \<Rightarrow> (unit, 'c SolverInterfaceImpl) outcome" where
  "writeBlockVectorData E fromDataID size' valueIndices values s =
     (case PRECICE_VALIDATE_DATA_ID fromDataID s of
        Some e \<Rightarrow> (Inl e, s)
      | None \<Rightarrow>
          if size' = 0 then (Inr (), s)
          else
            (case PRECICE_REQUIRE_DATA_WRITE fromDataID s of
               Some e \<Rightarrow> (Inl e, s)
             | None \<Rightarrow>
                 (case dataContexts (accessor s) fromDataID of
                    None \<Rightarrow> (Inl nullPointer, s)
                  | Some context \<Rightarrow>
                      if data_dimensions (datas s (fromData context)) \<noteq> dimensions s
                      then (Inl (UsageError,
                              ''You cannot call writeBlockVectorData on the scalar data type''), s)
                      else
                        forEach
                          (\<lambda>i t.
                             let valuesInternal = data_values (datas t (fromData context));
                                 valueIndex = valueIndices i
                             in case checkValueIndex valueIndex (int (length valuesInternal))
                                       (data_dimensions (datas t (fromData context))) of
                                  Some e \<Rightarrow> (Inl e, t)
                                | None \<Rightarrow>
                                    (let offsetInternal = valueIndex * dimensions t;
                                         offset = int i * dimensions t
                                     in forEach
                                          (\<lambda>dim u.
                                             case PRECICE_ASSERT E
                                                    (offset + int dim
                                                       < int (length (data_values (datas u (fromData context))))) of
                                               Some e \<Rightarrow> (Inl e, u)
                                             | None \<Rightarrow>
                                                 storeValue (fromData context) (offsetInternal + int dim)
                                                   (values (nat (offset + int dim))) u)
                                          [0..<nat (dimensions t)] t))
                          [0..<nat size'] s)))"

text \<open>\<open>SolverInterfaceImpl::writeVectorData\<close>\<close>

definition writeVectorData ::
  "int \<Rightarrow> int \<Rightarrow> (nat \<Rightarrow> real) \<Rightarrow> 'c SolverInterfaceImpl
     \<Rightarrow> (unit, 'c SolverInterfaceImpl) outcome" where
  "writeVectorData fromDataID valueIndex val s =
     (case PRECICE_VALIDATE_DATA_ID fromDataID s of
        Some e \<Rightarrow> (Inl e, s)
      | None \<Rightarrow>
          (case PRECICE_REQUIRE_DATA_WRITE fromDataID s of
             Some e \<Rightarrow> (Inl e, s)
           | None \<Rightarrow>
               (case dataContexts (accessor s) fromDataID of
                  None \<Rightarrow> (Inl nullPointer, s)
                | Some context \<Rightarrow>
                    if data_dimensions (datas s (fromData context)) \<noteq> dimensions s
                    then (Inl (UsageError,
                            ''You cannot call writeVectorData on the scalar data type''), s)
                    else
                      (case checkValueIndex valueIndex
                              (int (length (data_values (datas s (fromData context)))))
                              (data_dimensions (datas s (fromData context))) of
                         Some e \<Rightarrow> (Inl e, s)
                       | None \<Rightarrow>
                           (let offset = valueIndex * dimensions s
                            in forEach
                                 (\<lambda>dim u. storeValue (fromData context) (offset + int dim) (val dim) u)
                                 [0..<nat (dimensions s)] s)))))"

text \<open>\<open>SolverInterfaceImpl::writeBlockScalarData\<close>\<close>

definition writeBlockScalarData ::
  "Env \<Rightarrow> int \<Rightarrow> int \<Rightarrow> (nat \<Rightarrow> int) \<Rightarrow> (nat \<Rightarrow> real) \<Rightarrow> 'c SolverInterfaceImpl
     \<Rightarrow> (unit, 'c SolverInterfaceImpl) outcome" where
  "writeBlockScalarData E fromDataID size' valueIndices values s =
     (case PRECICE_VALIDATE_DATA_ID fromDataID s of
        Some e \<Rightarrow> (Inl e, s)
      | None \<Rightarrow>
          if size' = 0 then (Inr (), s)
          else
            (case PRECICE_REQUIRE_DATA_WRITE fromDataID s of
               Some e \<Rightarrow> (Inl e, s)
             | None \<Rightarrow>
                 (case dataContexts (accessor s) fromDataID of
                    None \<Rightarrow> (Inl nullPointer, s)
                  | Some context \<Rightarrow>
                      if data_dimensions (datas s (fromData context)) \<noteq> 1
                      then (Inl (UsageError,
                              ''You cannot call writeBlockScalarData on the vector data type''), s)
                      else
                        forEach
                          (\<lambda>i t.
                             let valuesInternal = data_values (datas t (fromData context));
                                 valueIndex = valueIndices i
                             in case checkValueIndex valueIndex (int (length valuesInternal))
                                       (data_dimensions (datas t (fromData context))) of
                                  Some e \<Rightarrow> (Inl e, t)
                                | None \<Rightarrow>
                                    (case PRECICE_ASSERT E (int i < int (length valuesInternal)) of
                                       Some e \<Rightarrow> (Inl e, t)
                                     | None \<Rightarrow> storeValue (fromData context) valueIndex (values i) t))
                          [0..<nat size'] s)))"

text \<open>\<open>SolverInterfaceImpl::writeScalarData\<close>\<close>

definition writeScalarData ::
  "int \<Rightarrow> int \<Rightarrow> real \<Rightarrow> 'c SolverInterfaceImpl \<Rightarrow> (unit, 'c SolverInterfaceImpl) outcome" where
  "writeScalarData fromDataID valueIndex val s =
     (case PRECICE_VALIDATE_DATA_ID fromDataID s of
        Some e \<Rightarrow> (Inl e, s)
      | None \<Rightarrow>
          if \<not> valueIndex \<ge> - 1
          then (Inl (UsageError, ''Invalid value index when writing scalar data''), s)
          else
            (case PRECICE_REQUIRE_DATA_WRITE fromDataID s of
               Some e \<Rightarrow> (Inl e, s)
             | None \<Rightarrow>
                 (case dataContexts (accessor s) fromDataID of
                    None \<Rightarrow> (Inl nullPointer, s)
                  | Some context \<Rightarrow>
                      if data_dimensions (datas s (fromData context)) \<noteq> 1
                      then (Inl (UsageError,
                              ''You cannot call writeScalarData on the vector data type''), s)
                      else
                        (case checkValueIndex valueIndex
                                (int (length (data_values (datas s (fromData context)))))
                                (data_dimensions (datas s (fromData context))) of
                           Some e \<Rightarrow> (Inl e, s)
                         | None \<Rightarrow> storeValue (fromData context) valueIndex val s))))"

text \<open>
  The reading functions are \<open>const\<close>: the session state is only read.  What they change is the
  caller's output; the outcome pairs the result with the content of that output, which starts
  as \<open>values\<close> (\<open>val\<close> for a single scalar).
\<close>

text \<open>\<open>SolverInterfaceImpl::readBlockVectorData\<close>\<close>

definition readBlockVectorData ::
  "Env \<Rightarrow> int \<Rightarrow> int \<Rightarrow> (nat \<Rightarrow> int) \<Rightarrow> (nat \<Rightarrow> real) \<Rightarrow> 'c SolverInterfaceImpl
     \<Rightarrow> (unit, nat \<Rightarrow> real) outcome" where
  "readBlockVectorData E toDataID size' valueIndices values s =
     (case PRECICE_VALIDATE_DATA_ID toDataID s of
        Some e \<Rightarrow> (Inl e, values)
      | None \<Rightarrow>
          if size' = 0 then (Inr (), values)
          else
            (case PRECICE_REQUIRE_DATA_READ toDataID s of
               Some e \<Rightarrow> (Inl e, values)
             | None \<Rightarrow>
                 (case dataContexts (accessor s) toDataID of
                    None \<Rightarrow> (Inl nullPointer, values)
                  | Some context \<Rightarrow>
                      if data_dimensions (datas s (toData context)) \<noteq> dimensions s
                      then (Inl (UsageError,
                              ''You cannot call readBlockVectorData on the scalar data type''), values)
                      else
                        (let valuesInternal = data_values (datas s (toData context))
                         in forEach
                              (\<lambda>i out.
                                 let valueIndex = valueIndices i
                                 in case checkValueIndex valueIndex (int (length valuesInternal))
                                           (data_dimensions (datas s (fromData context))) of
                                      Some e \<Rightarrow> (Inl e, out)
                                    | None \<Rightarrow>
                                        (let offsetInternal = valueIndex * dimensions s;
                                             offset = int i * dimensions s
                                         in forEach
                                              (\<lambda>dim out'.
                                                 case PRECICE_ASSERT E
                                                        (offsetInternal + int dim
                                                           < int (length valuesInternal)) of
                                                   Some e \<Rightarrow> (Inl e, out')
                                                 | None \<Rightarrow>
                                                     (case loadValue s (toData context)
                                                             (offsetInternal + int dim) of
                                                        Inl e \<Rightarrow> (Inl e, out')
                                                      | Inr v \<Rightarrow>
                                                          (Inr (), out'(nat (offset + int dim) := v))))
                                              [0..<nat (dimensions s)] out))
                              [0..<nat size'] values))))"

text \<open>\<open>SolverInterfaceImpl::readVectorData\<close>\<close>

definition readVectorData ::
  "int \<Rightarrow> int \<Rightarrow> (nat \<Rightarrow> real) \<Rightarrow> 'c SolverInterfaceImpl \<Rightarrow> (unit, nat \<Rightarrow> real) outcome" where
  "readVectorData toDataID valueIndex val s =
     (case PRECICE_VALIDATE_DATA_ID toDataID s of
        Some e \<Rightarrow> (Inl e, val)
      | None \<Rightarrow>
          if \<not> valueIndex \<ge> - 1
          then (Inl (UsageError, ''Invalid value index when reading vector data''), val)
          else
            (case PRECICE_REQUIRE_DATA_READ toDataID s of
               Some e \<Rightarrow> (Inl e, val)
             | None \<Rightarrow>
                 (case dataContexts (accessor s) toDataID of
                    None \<Rightarrow> (Inl nullPointer, val)
                  | Some context \<Rightarrow>
                      if data_dimensions (datas s (toData context)) \<noteq> dimensions s
                      then (Inl (UsageError,
                              ''You cannot call readVectorData on the scalar data type''), val)
                      else
                        (case checkValueIndex valueIndex
                                (int (length (data_values (datas s (toData context)))))
                                (data_dimensions (datas s (fromData context))) of
                           Some e \<Rightarrow> (Inl e, val)
                         | None \<Rightarrow>
                             (let offset = valueIndex * dimensions s
                              in forEach
                                   (\<lambda>dim out.
                                      case loadValue s (toData context) (offset + int dim) of
                                        Inl e \<Rightarrow> (Inl e, out)
                                      | Inr v \<Rightarrow> (Inr (), out(dim := v)))
                                   [0..<nat (dimensions s)] val)))))"

text \<open>
  \<open>SolverInterfaceImpl::readBlockScalarData\<close>.  The index is checked against the size of the
  buffer itself: \<open>0 <= valueIndex && valueIndex < valuesInternal.size()\<close>.
\<close>

definition readBlockScalarData ::
  "int \<Rightarrow> int \<Rightarrow> (nat \<Rightarrow> int) \<Rightarrow> (nat \<Rightarrow> real) \<Rightarrow> 'c SolverInterfaceImpl
     \<Rightarrow> (unit, nat \<Rightarrow> real) outcome" where
  "readBlockScalarData toDataID size' valueIndices values s =
     (case PRECICE_VALIDATE_DATA_ID toDataID s of
        Some e \<Rightarrow> (Inl e, values)
      | None \<Rightarrow>
          if size' = 0 then (Inr (), values)
          else
            (case PRECICE_REQUIRE_DATA_READ toDataID s of
               Some e \<Rightarrow> (Inl e, values)
             | None \<Rightarrow>
                 (case dataContexts (accessor s) toDataID of
                    None \<Rightarrow> (Inl nullPointer, values)
                  | Some context \<Rightarrow>
                      if data_dimensions (datas s (toData context)) \<noteq> 1
                      then (Inl (UsageError,
                              ''You cannot call readBlockScalarData on the vector data type''), values)
                      else
                        (let valuesInternal = data_values (datas s (toData context))
                         in forEach
                              (\<lambda>i out.
                                 let valueIndex = valueIndices i
                                 in if \<not> (0 \<le> valueIndex \<and> valueIndex < int (length valuesInternal))
                                    then (Inl (UsageError, ''Value index out of range''), out)
                                    else (case loadValue s (toData context) valueIndex of
                                            Inl e \<Rightarrow> (Inl e, out)
                                          | Inr v \<Rightarrow> (Inr (), out(i := v))))
                              [0..<nat size'] values))))"

text \<open>\<open>SolverInterfaceImpl::readScalarData\<close>\<close>

definition readScalarData ::
  "int \<Rightarrow> int \<Rightarrow> real \<Rightarrow> 'c SolverInterfaceImpl \<Rightarrow> (unit, real) outcome" where
  "readScalarData toDataID valueIndex val s =
     (case PRECICE_VALIDATE_DATA_ID toDataID s of
        Some e \<Rightarrow> (Inl e, val)
      | None \<Rightarrow>
          if \<not> valueIndex \<ge> - 1
          then (Inl (UsageError, ''Invalid value index when reading vector data''), val)
          else
            (case PRECICE_REQUIRE_DATA_READ toDataID s of
               Some e \<Rightarrow> (Inl e, val)
             | None \<Rightarrow>
                 (case dataContexts (accessor s) toDataID of
                    None \<Rightarrow> (Inl nullPointer, val)
                  | Some context \<Rightarrow>
                      if data_dimensions (datas s (toData context)) \<noteq> 1
                      then (Inl (UsageError,
                              ''You cannot call readScalarData on the vector data type''), val)
                      else
                        (let vals = data_values (datas s (toData context))
                         in if \<not> (0 \<le> valueIndex \<and> valueIndex < int (length vals))
                            then (Inl (UsageError, ''Value index out of range''), val)
                            else (case loadValue s (toData context) valueIndex of
                                    Inl e \<Rightarrow> (Inl e, val)
                                  | Inr v \<Rightarrow> (Inr (), v))))))"

subsection \<open>Explicit mapping\<close>

text \<open>
  \<open>SolverInterfaceImpl::mapReadDataTo\<close>.  The only places that set \<open>hasMappedData\<close> are this
  function and its write-side twin; they set it on the mapping context of the mesh context.
\<close>

definition mapReadDataTo ::
  "Env \<Rightarrow> int \<Rightarrow> 'c SolverInterfaceImpl \<Rightarrow> (unit, 'c SolverInterfaceImpl) outcome" where
  "mapReadDataTo E toMeshID' s =
     (case PRECICE_VALIDATE_MESH_ID toMeshID' s of
        Some e \<Rightarrow> (Inl e, s)
      | None \<Rightarrow>
          (case meshContext s toMeshID' of
             None \<Rightarrow> (Inl nullPointer, s)
           | Some context \<Rightarrow>
               (let a = toMappingContext context
                in case mapping (mappingContexts s a) of
                     None \<Rightarrow> (Inl (UsageError, ''there is no mapping defined!''), s)
                   | Some m \<Rightarrow>
                       (let s1 = (if \<not> hasComputedMapping (mappings s m)
                                  then call_computeMapping m s else s)
                        in case forEach
                                  (\<lambda>context t.
                                     if dc_mesh context = toMeshID'
                                     then (let inDataID = fromData context;
                                               outDataID = toData context;
                                               t1 = zeroValues outDataID t
                                           in case PRECICE_ASSERT E
                                                     (mapping (mappingContexts t1 a)
                                                        = mapping (mappingContexts t1 (mappingContext context))) of
                                                Some e \<Rightarrow> (Inl e, t1)
                                              | None \<Rightarrow> (Inr (), call_map m inDataID outDataID t1))
                                     else (Inr (), t))
                                  (readDataContexts (accessor s1)) s1 of
                             (Inl e, s2) \<Rightarrow> (Inl e, s2)
                           | (Inr _, s2) \<Rightarrow> (Inr (), setHasMappedData a True s2)))))"

text \<open>\<open>SolverInterfaceImpl::mapWriteDataFrom\<close>\<close>

definition mapWriteDataFrom ::
  "Env \<Rightarrow> int \<Rightarrow> 'c SolverInterfaceImpl \<Rightarrow> (unit, 'c SolverInterfaceImpl) outcome" where
  "mapWriteDataFrom E fromMeshID' s =
     (case PRECICE_VALIDATE_MESH_ID fromMeshID' s of
        Some e \<Rightarrow> (Inl e, s)
      | None \<Rightarrow>
          (case meshContext s fromMeshID' of
             None \<Rightarrow> (Inl nullPointer, s)
           | Some context \<Rightarrow>
               (let a = fromMappingContext context
                in case mapping (mappingContexts s a) of
                     None \<Rightarrow> (Inl (UsageError, ''there is no mapping defined''), s)
                   | Some m \<Rightarrow>
                       (let s1 = (if \<not> hasComputedMapping (mappings s m)
                                  then call_computeMapping m s else s)
                        in case forEach
                                  (\<lambda>context t.
                                     if dc_mesh context = fromMeshID'
                                     then (let inDataID = fromData context;
                                               outDataID = toData context;
                                               t1 = zeroValues outDataID t
                                           in case PRECICE_ASSERT E
                                                     (mapping (mappingContexts t1 a)
                                                        = mapping (mappingContexts t1 (mappingContext context))) of
                                                Some e \<Rightarrow> (Inl e, t1)
                                              | None \<Rightarrow> (Inr (), call_map m inDataID outDataID t1))
                                     else (Inr (), t))
                                  (writeDataContexts (accessor s1)) s1 of
                             (Inl e, s2) \<Rightarrow> (Inl e, s2)
                           | (Inr _, s2) \<Rightarrow> (Inr (), setHasMappedData a True s2)))))"

subsection \<open>Partitions\<close>

text \<open>
  \<open>std::stable_partition\<close>: the elements that satisfy the predicate come first, and both
  groups keep their relative order.
\<close>

definition stable_partition :: "('a \<Rightarrow> bool) \<Rightarrow> 'a list \<Rightarrow> 'a list" where
  "stable_partition P xs = filter P xs @ filter (\<lambda>x. \<not> P x) xs"

text \<open>
  \<open>SolverInterfaceImpl::computePartitions\<close>.  \<open>std::sort\<close> with the comparison of the mesh names
  (\<open>std::string::operator<\<close>: lexicographic on the bytes) is an insertion sort here; the two
  agree whenever the names are pairwise different, which is the only case in which the
  result of \<open>std::sort\<close> is determined.
\<close>

definition computePartitions :: "'c SolverInterfaceImpl \<Rightarrow> 'c SolverInterfaceImpl" where
  "computePartitions s =
     (let contexts = sort_key (\<lambda>c. mesh_name (meshes s (mesh c))) (usedMeshContexts (accessor s));
          s1 = emit (map (\<lambda>meshContext. Partition_communicate (mesh meshContext)) contexts)
                 (s\<lparr>accessor := (accessor s)\<lparr>usedMeshContexts := contexts\<rparr>\<rparr>);
          contexts' = stable_partition provideMesh contexts;
          s2 = s1\<lparr>accessor := (accessor s1)\<lparr>usedMeshContexts := contexts'\<rparr>\<rparr>
      in fold
           (\<lambda>meshContext t.
              allocateDataValues (mesh meshContext)
                (emit [Partition_compute (mesh meshContext),
                       Mesh_computeState (mesh meshContext),
                       Mesh_allocateDataValues (mesh meshContext)] t))
           contexts' s2)"

subsection \<open>Actions and exports\<close>

text \<open>\<open>SolverInterfaceImpl::performDataActions\<close>\<close>

definition performDataActions ::
  "Timing set \<Rightarrow> real \<Rightarrow> real \<Rightarrow> real \<Rightarrow> real \<Rightarrow> 'c SolverInterfaceImpl \<Rightarrow> 'c SolverInterfaceImpl" where
  "performDataActions timings time dt partFullDt fullDt s =
     emit (map (\<lambda>(i, a). Action_performAction i time dt partFullDt fullDt)
             (filter (\<lambda>(i, a). a \<in> timings) (enumerate 0 (actions (accessor s))))) s"

text \<open>
  What \<open>operator<<\<close> writes for an \<open>int\<close>: the decimal digits, the most significant first,
  after a minus sign for a negative number.
\<close>

fun decimalDigits :: "nat \<Rightarrow> nat list" where
  "decimalDigits n = (if n < 10 then [n] else n mod 10 # decimalDigits (n div 10))"

declare decimalDigits.simps [simp del]

definition printInt :: "int \<Rightarrow> string" where
  "printInt i =
     (if i < 0 then ''-'' else []) @ map (\<lambda>d. ''0123456789'' ! d) (rev (decimalDigits (nat \<bar>i\<bar>)))"

text \<open>
  \<open>SolverInterfaceImpl::exportMesh\<close>, called with the default value of its second parameter
  (\<open>exportAll\<close>), as every call in the source is: every exporter exports every used mesh.
\<close>

definition exportMesh :: "string \<Rightarrow> 'c SolverInterfaceImpl \<Rightarrow> 'c SolverInterfaceImpl" where
  "exportMesh filenameSuffix s =
     emit (concat (map (\<lambda>context.
             map (\<lambda>meshContext.
                    Export_doExport (mesh_name (meshes s (mesh meshContext)) @ ''-'' @ filenameSuffix)
                      (location context) (mesh meshContext))
               (usedMeshContexts (accessor s)))
           (exportContexts (accessor s)))) s"

text \<open>\<open>SolverInterfaceImpl::handleExports\<close>; \<open>%\<close> truncates and is undefined for a zero divisor.\<close>

definition handleExports ::
  "'c CouplingScheme \<Rightarrow> 'c SolverInterfaceImpl \<Rightarrow> (unit, 'c SolverInterfaceImpl) outcome" where
  "handleExports V s =
     (case couplingScheme s of
        None \<Rightarrow> (Inl nullPointer, s)
      | Some c0 \<Rightarrow>
          (let timesteps = cs_getTimesteps V c0 - 1
           in case forEach
                     (\<lambda>context t.
                        case couplingScheme t of
                          None \<Rightarrow> (Inl nullPointer, t)
                        | Some c \<Rightarrow>
                            if cs_isCouplingTimestepComplete V c \<or> everyIteration context
                            then if timestepInterval context \<noteq> - 1
                                 then if timestepInterval context = 0
                                      then (Inl (Undefined, ''division by zero''), t)
                                      else if timesteps smod timestepInterval context = 0
                                      then (let t1 = (if everyIteration context
                                                      then exportMesh (accessorName t @ ''.it''
                                                             @ printInt (numberAdvanceCalls t)) t
                                                      else t);
                                                t2 = exportMesh (accessorName t1 @ ''.dt''
                                                       @ printInt (cs_getTimesteps V c - 1)) t1
                                            in if triggerSolverPlot context
                                               then (Inr (), emit [Cpl_requireAction ''plot-output'']
                                                       (t2\<lparr>couplingScheme :=
                                                             Some (cs_requireAction V ''plot-output'' c)\<rparr>))
                                               else (Inr (), t2))
                                      else (Inr (), t)
                                 else (Inr (), t)
                            else (Inr (), t))
                     (exportContexts (accessor s)) s of
                (Inl e, s1) \<Rightarrow> (Inl e, s1)
              | (Inr _, s1) \<Rightarrow>
                  (case couplingScheme s1 of
                     None \<Rightarrow> (Inl nullPointer, s1)
                   | Some c1 \<Rightarrow>
                       if cs_isCouplingTimestepComplete V c1
                       then (Inr (), emit (map (\<lambda>i. WatchPoint_exportPointData i (cs_getTime V c1))
                                            [0..<watchPoints (accessor s1)]) s1)
                       else (Inr (), s1))))"

text \<open>\<open>SolverInterfaceImpl::resetWrittenData\<close>\<close>

definition resetWrittenData :: "'c SolverInterfaceImpl \<Rightarrow> 'c SolverInterfaceImpl" where
  "resetWrittenData s =
     fold (\<lambda>context t.
             let t1 = zeroValues (fromData context) t
             in if toData context \<noteq> fromData context then zeroValues (toData context) t1 else t1)
       (writeDataContexts (accessor s)) s"

subsection \<open>The lifecycle: initialize, initializeData, advance, finalize\<close>

text \<open>\<open>SolverInterfaceImpl::syncTimestep\<close>\<close>

definition syncTimestep ::
  "Env \<Rightarrow> real \<Rightarrow> 'c SolverInterfaceImpl \<Rightarrow> (unit, 'c SolverInterfaceImpl) outcome" where
  "syncTimestep E computedTimestepLength s =
     (case PRECICE_ASSERT E (isMaster s \<or> isSlave s) of
        Some e \<Rightarrow> (Inl e, s)
      | None \<Rightarrow>
          if isSlave s then (Inr (), emit [MS_send computedTimestepLength 0] s)
          else if isMaster s
          then forEach
                 (\<lambda>rankSlave t.
                    let dt = ms_receive E rankSlave;
                        t1 = emit [MS_receive dt rankSlave] t
                    in if math_equals E dt computedTimestepLength then (Inr (), t1)
                       else (Inl (ProtocolError,
                               ''Ambiguous timestep length when calling request advance from several processes!''),
                             t1))
                 (map int [1..<nat (accessorCommunicatorSize s)]) s
          else (Inr (), s))"

text \<open>\<open>SolverInterfaceImpl::initialize\<close>\<close>

definition initialize ::
  "'c CouplingScheme \<Rightarrow> 'c SolverInterfaceImpl \<Rightarrow> (real, 'c SolverInterfaceImpl) outcome" where
  "initialize V s =
     (let s1 = emit (concat (map (\<lambda>(n, bm2n). [M2N_prepareEstablishment (remoteName bm2n),
                                                 M2N_connectMasters (remoteName bm2n)]) (m2ns s))) s;
          s2 = computePartitions s1;
          s3 = emit (concat (map (\<lambda>(n, bm2n). [M2N_connectSlaves (remoteName bm2n),
                                                 M2N_cleanupEstablishment (remoteName bm2n)]) (m2ns s2))) s2;
          s4 = emit (map WatchPoint_initialize [0..<watchPoints (accessor s3)]) s3;
          time = 0;
          timestep = 1
      in case couplingScheme s4 of
           None \<Rightarrow> (Inl nullPointer, s4)
         | Some c \<Rightarrow>
             (case cs_initialize V time timestep c of
                Inl e \<Rightarrow> (Inl e, emit [Cpl_initialize time timestep] s4)
              | Inr c1 \<Rightarrow>
                  (let s5 = emit [Cpl_initialize time timestep] (s4\<lparr>couplingScheme := Some c1\<rparr>);
                       dt = cs_getNextTimestepMaxLength V c1;
                       timings = {ALWAYS_POST} \<union>
                                 (if cs_hasDataBeenExchanged V c1 then {ON_EXCHANGE_POST} else {})
                   in case (if cs_hasDataBeenExchanged V c1 then mapReadData s5 else (Inr (), s5)) of
                        (Inl e, s6) \<Rightarrow> (Inl e, s6)
                      | (Inr _, s6) \<Rightarrow>
                          (let s7 = performDataActions timings 0 0 0 dt s6;
                               s8 = lockAll s7
                           in case couplingScheme s8 of
                                None \<Rightarrow> (Inl nullPointer, s8)
                              | Some c2 \<Rightarrow> (Inr (cs_getNextTimestepMaxLength V c2), s8)))))"

text \<open>\<open>SolverInterfaceImpl::initializeData\<close>\<close>

definition initializeData ::
  "'c CouplingScheme \<Rightarrow> 'c SolverInterfaceImpl \<Rightarrow> (unit, 'c SolverInterfaceImpl) outcome" where
  "initializeData V s =
     (case couplingScheme s of
        None \<Rightarrow> (Inl nullPointer, s)
      | Some c \<Rightarrow>
          if \<not> cs_isInitialized V c
          then (Inl (UsageError, ''initialize() has to be called before initializeData()''), s)
          else
            (case mapWrittenData s of
               (Inl e, s1) \<Rightarrow> (Inl e, s1)
             | (Inr _, s1) \<Rightarrow>
                 (case cs_initializeData V c of
                    Inl e \<Rightarrow> (Inl e, emit [Cpl_initializeData] s1)
                  | Inr c1 \<Rightarrow>
                      (let s2 = emit [Cpl_initializeData] (s1\<lparr>couplingScheme := Some c1\<rparr>);
                           dt = cs_getNextTimestepMaxLength V c1;
                           timings = (if cs_hasDataBeenExchanged V c1 then {ON_EXCHANGE_POST} else {})
                       in case (if cs_hasDataBeenExchanged V c1 then mapReadData s2 else (Inr (), s2)) of
                            (Inl e, s3) \<Rightarrow> (Inl e, s3)
                          | (Inr _, s3) \<Rightarrow>
                              (let s4 = performDataActions timings 0 0 0 dt s3;
                                   s5 = resetWrittenData s4
                               in forEach
                                    (\<lambda>context t.
                                       if timestepInterval context \<noteq> - 1
                                       then (let t1 = exportMesh (accessorName t @ ''.init'') t
                                             in if triggerSolverPlot context
                                                then (case couplingScheme t1 of
                                                        None \<Rightarrow> (Inl nullPointer, t1)
                                                      | Some c2 \<Rightarrow>
                                                          (Inr (), emit [Cpl_requireAction ''plot-output'']
                                                             (t1\<lparr>couplingScheme :=
                                                                   Some (cs_requireAction V ''plot-output'' c2)\<rparr>)))
                                                else (Inr (), t1))
                                       else (Inr (), t))
                                    (exportContexts (accessor s5)) s5)))))"

text \<open>
  \<open>SolverInterfaceImpl::advance\<close>.  The synchronisation of the timestep is compiled only
  without \<open>NDEBUG\<close> and runs only on a master or a slave.  \<open>mapWrittenData\<close>,
  \<open>performDataActions\<close> and \<open>mapReadData\<close> leave the coupling scheme alone, so the scheme
  state read after them is the one written before them.
\<close>

definition advance ::
  "Env \<Rightarrow> 'c CouplingScheme \<Rightarrow> real \<Rightarrow> 'c SolverInterfaceImpl
     \<Rightarrow> (real, 'c SolverInterfaceImpl) outcome" where
  "advance E V computedTimestepLength s =
     (case couplingScheme s of
        None \<Rightarrow> (Inl nullPointer, s)
      | Some c \<Rightarrow>
          if \<not> cs_isInitialized V c
          then (Inl (UsageError, ''initialize() has to be called before advance()''), s)
          else if \<not> cs_isCouplingOngoing V c
          then (Inl (UsageError,
                  ''advance() cannot be called when isCouplingOngoing() returns false''), s)
          else
            (let s0 = s\<lparr>numberAdvanceCalls := numberAdvanceCalls s + 1\<rparr>
             in case (if \<not> NDEBUG E \<and> (isMaster s0 \<or> isSlave s0)
                      then syncTimestep E computedTimestepLength s0 else (Inr (), s0)) of
                  (Inl e, s1) \<Rightarrow> (Inl e, s1)
                | (Inr _, s1) \<Rightarrow>
                    (case cs_addComputedTime V computedTimestepLength c of
                       Inl e \<Rightarrow> (Inl e, emit [Cpl_addComputedTime computedTimestepLength] s1)
                     | Inr c1 \<Rightarrow>
                         (let s2 = emit [Cpl_addComputedTime computedTimestepLength]
                                     (s1\<lparr>couplingScheme := Some c1\<rparr>);
                              timestepLength = (if cs_hasTimestepLength V c1
                                                then cs_getTimestepLength V c1
                                                else computedTimestepLength);
                              timestepPart = timestepLength - cs_getThisTimestepRemainder V c1;
                              time = cs_getTime V c1
                          in case mapWrittenData s2 of
                               (Inl e, s3) \<Rightarrow> (Inl e, s3)
                             | (Inr _, s3) \<Rightarrow>
                                 (let timings = {ALWAYS_PRIOR} \<union>
                                                (if cs_willDataBeExchanged V 0 c1
                                                 then {ON_EXCHANGE_PRIOR} else {});
                                      s4 = performDataActions timings time computedTimestepLength
                                             timestepPart timestepLength s3
                                  in case cs_advance V c1 of
                                       Inl e \<Rightarrow> (Inl e, emit [Cpl_advance] s4)
                                     | Inr c2 \<Rightarrow>
                                         (let s5 = emit [Cpl_advance] (s4\<lparr>couplingScheme := Some c2\<rparr>);
                                              timings' =
                                                {ALWAYS_POST} \<union>
                                                (if cs_hasDataBeenExchanged V c2
                                                 then {ON_EXCHANGE_POST} else {}) \<union>
                                                (if cs_isCouplingTimestepComplete V c2
                                                 then {ON_TIMESTEP_COMPLETE_POST} else {});
                                              s6 = performDataActions timings' time computedTimestepLength
                                                     timestepPart timestepLength s5
                                          in case (if cs_hasDataBeenExchanged V c2
                                                   then mapReadData s6 else (Inr (), s6)) of
                                               (Inl e, s7) \<Rightarrow> (Inl e, s7)
                                             | (Inr _, s7) \<Rightarrow>
                                                 (case handleExports V s7 of
                                                    (Inl e, s8) \<Rightarrow> (Inl e, s8)
                                                  | (Inr _, s8) \<Rightarrow>
                                                      (let s9 = lockAll s8
                                                       in case couplingScheme s9 of
                                                            None \<Rightarrow> (Inl nullPointer, s9)
                                                          | Some c3 \<Rightarrow>
                                                              (Inr (cs_getNextTimestepMaxLength V c3), s9)))))))))"



subsection \<open>What the dispatcher is expected to emit\<close>

text \<open>
  The timing test of the dispatcher, and the events of its second loop over the data
  contexts \<open>ds\<close>, read off the state before the dispatch: a context is mapped when it carries
  a mapping, the timing matches and the flag \<open>hasMappedData\<close> is unset.
\<close>

definition timingMatches :: "MappingContext \<Rightarrow> bool" where
  "timingMatches mc = (timing mc = ON_ADVANCE \<or> timing mc = INITIAL)"

definition mapEvents :: "'c SolverInterfaceImpl \<Rightarrow> DataContext list \<Rightarrow> event list" where
  "mapEvents s ds =
     concat (map (\<lambda>d. let mc = mappingContexts s (mappingContext d)
                       in case mapping mc of
                            None \<Rightarrow> []
                          | Some m \<Rightarrow>
                              if timingMatches mc \<and> \<not> hasMappedData mc
                              then [Data_zeroValues (toData d), Mapping_map m (fromData d) (toData d)]
                              else []) ds)"

text \<open>
  A state \<open>s'\<close> differs from \<open>s\<close> at most in the data buffers, in the mapping contexts, in
  the mapping objects and in the trace.
\<close>

definition mappingFrame :: "'c SolverInterfaceImpl \<Rightarrow> 'c SolverInterfaceImpl \<Rightarrow> bool" where
  "mappingFrame s s' =
     (s' = s\<lparr>datas := datas s', mappingContexts := mappingContexts s',
              mappings := mappings s', trace := trace s'\<rparr>)"


text \<open>
  What a run of the dispatcher over the mapping contexts \<open>mcs\<close> and the data contexts \<open>dcs\<close>
  has done when it returns in \<open>s'\<close>, started in \<open>s\<close>: the trace has grown by calls of
  \<open>computeMapping\<close> (only on mappings not computed before, and on every such mapping whose
  timing matches), then by the events of the data loop, then by calls of \<open>clear\<close>; no flag
  \<open>hasMappedData\<close> has been set; the flag of every context of \<open>mcs\<close> is unset, and every
  context of \<open>mcs\<close> that is not stationary has been cleared.
\<close>

definition dispatched ::
  "nat list \<Rightarrow> DataContext list \<Rightarrow> 'c SolverInterfaceImpl \<Rightarrow> 'c SolverInterfaceImpl \<Rightarrow> bool" where
  "dispatched mcs dcs s s' =
     (\<exists>A C. mappingFrame s s'
        \<and> trace s' = trace s @ A @ mapEvents s dcs @ C
        \<and> (\<forall>e\<in>set A. \<exists>m. e = Mapping_computeMapping m \<and> \<not> hasComputedMapping (mappings s m))
        \<and> (\<forall>a\<in>set mcs. \<forall>m. mapping (mappingContexts s a) = Some m
               \<and> timingMatches (mappingContexts s a) \<and> \<not> hasComputedMapping (mappings s m)
               \<longrightarrow> Mapping_computeMapping m \<in> set A)
        \<and> (\<forall>e\<in>set C. \<exists>m. e = Mapping_clear m)
        \<and> (\<forall>a\<in>set mcs. \<not> hasMappedData (mappingContexts s' a)
               \<and> (timing (mappingContexts s a) \<noteq> INITIAL \<longrightarrow>
                    (\<exists>m. mapping (mappingContexts s a) = Some m \<and> Mapping_clear m \<in> set C
                         \<and> \<not> hasComputedMapping (mappings s' m))))
        \<and> (\<forall>a. mapping (mappingContexts s' a) = mapping (mappingContexts s a)
               \<and> timing (mappingContexts s' a) = timing (mappingContexts s a)
               \<and> (hasMappedData (mappingContexts s' a) \<longrightarrow> hasMappedData (mappingContexts s a)))
        \<and> (\<forall>i. length (data_values (datas s' i)) = length (data_values (datas s i))))"


text \<open>
  A state \<open>t\<close> differs from \<open>s\<close> at most in the content of the data buffers: their sizes
  and the dimensions of the data sets are the same.
\<close>

definition valuesFrame :: "'c SolverInterfaceImpl \<Rightarrow> 'c SolverInterfaceImpl \<Rightarrow> bool" where
  "valuesFrame s t =
     (t = s\<lparr>datas := datas t\<rparr>
      \<and> (\<forall>i. length (data_values (datas t i)) = length (data_values (datas s i))
             \<and> data_dimensions (datas t i) = data_dimensions (datas s i)))"

subsection \<open>An example session\<close>

text \<open>
  A concrete session for the examples that accompany the theorems.  The participant
  \<open>SolverOne\<close> runs on two ranks and is their master.  It provides the mesh \<open>Fluid\<close> (ID 0, two
  vertices) and receives the meshes \<open>Solid\<close> (ID 1) and \<open>Aux\<close> (ID 2).  It writes the vector
  data \<open>Forces\<close> (ID 0), mapped to the data 2 on \<open>Solid\<close> by a stationary mapping (object 0),
  and reads the scalar data \<open>Pressure\<close> (ID 1), mapped from the data 3 on \<open>Solid\<close> by a mapping
  (object 1) with timing \<open>ON_ADVANCE\<close>.  Each mapping context exists three times, as in the
  C++ structures that hold it by value: in the list of the participant (addresses 0 and 1),
  in the mesh context of \<open>Fluid\<close> (2 and 3) and in the data context (4 and 5).

  The coupling scheme of the example has a fixed time window of length 1: a window is
  complete, and data is exchanged, when the remainder of the window is zero on \<open>advance\<close>.
\<close>

record DemoScheme =
  ds_initialized :: bool
  ds_time :: real
  ds_remainder :: real
  ds_timesteps :: int
  ds_exchanged :: bool
  ds_complete :: bool

definition demoV :: "DemoScheme CouplingScheme" where
  "demoV = \<lparr>
     cs_initialize = (\<lambda>t tw c. Inr (c\<lparr>ds_initialized := True, ds_time := t, ds_remainder := 1,
                                       ds_timesteps := tw, ds_exchanged := False, ds_complete := False\<rparr>)),
     cs_isInitialized = ds_initialized,
     cs_initializeData = (\<lambda>c. Inr c),
     cs_addComputedTime = (\<lambda>dt c. Inr (c\<lparr>ds_time := ds_time c + dt, ds_remainder := ds_remainder c - dt\<rparr>)),
     cs_advance = (\<lambda>c. Inr (if ds_remainder c = 0
                             then c\<lparr>ds_remainder := 1, ds_timesteps := ds_timesteps c + 1,
                                    ds_exchanged := True, ds_complete := True\<rparr>
                             else c\<lparr>ds_exchanged := False, ds_complete := False\<rparr>)),
     cs_finalize = (\<lambda>c. Inr c),
     cs_hasTimestepLength = (\<lambda>c. True),
     cs_getTimestepLength = (\<lambda>c. 1),
     cs_getThisTimestepRemainder = ds_remainder,
     cs_getTime = ds_time,
     cs_getTimesteps = ds_timesteps,
     cs_getNextTimestepMaxLength = ds_remainder,
     cs_isCouplingOngoing = (\<lambda>c. ds_timesteps c \<le> 10),
     cs_hasDataBeenExchanged = ds_exchanged,
     cs_willDataBeExchanged = (\<lambda>l c. ds_remainder c - l = 0),
     cs_isCouplingTimestepComplete = ds_complete,
     cs_requireAction = (\<lambda>a c. c) \<rparr>"

definition demoE :: Env where
  "demoE = \<lparr> NDEBUG = False,
             math_equals = (\<lambda>a b. \<bar>a - b\<bar> \<le> 1 / 10 ^ 14),
             ms_receive = (\<lambda>rank. 1),
             m2n_receive = (\<lambda>remote. ''pong'') \<rparr>"

definition demoWriteMapping :: MappingContext where
  "demoWriteMapping = \<lparr> mapping = Some 0, fromMeshID = 0, toMeshID = 1, timing = INITIAL,
                        hasMappedData = False \<rparr>"

definition demoReadMapping :: MappingContext where
  "demoReadMapping = \<lparr> mapping = Some 1, fromMeshID = 1, toMeshID = 0, timing = ON_ADVANCE,
                       hasMappedData = False \<rparr>"

definition demoNoMapping :: MappingContext where
  "demoNoMapping = \<lparr> mapping = None, fromMeshID = 0, toMeshID = 0, timing = INITIAL,
                     hasMappedData = False \<rparr>"

definition demoWriteContext :: DataContext where
  "demoWriteContext = \<lparr> fromData = 0, toData = 2, dc_mesh = 0, mappingContext = 4 \<rparr>"

definition demoReadContext :: DataContext where
  "demoReadContext = \<lparr> fromData = 3, toData = 1, dc_mesh = 0, mappingContext = 5 \<rparr>"

definition demoParticipant :: Participant where
  "demoParticipant = \<lparr>
     usedMeshContexts =
       [\<lparr> mesh = 1, provideMesh = False, receiveMeshFrom = ''SolverTwo'',
           fromMappingContext = 6, toMappingContext = 7 \<rparr>,
        \<lparr> mesh = 0, provideMesh = True, receiveMeshFrom = '''',
           fromMappingContext = 2, toMappingContext = 3 \<rparr>,
        \<lparr> mesh = 2, provideMesh = False, receiveMeshFrom = ''SolverTwo'',
           fromMappingContext = 8, toMappingContext = 9 \<rparr>],
     readMappingContexts = [1],
     writeMappingContexts = [0],
     readDataContexts = [demoReadContext],
     writeDataContexts = [demoWriteContext],
     dataContexts = (\<lambda>i. if i = 0 then Some demoWriteContext
                         else if i = 1 then Some demoReadContext else None),
     actions = [ALWAYS_PRIOR, ON_EXCHANGE_POST, ON_TIMESTEP_COMPLETE_POST],
     exportContexts = [\<lparr> timestepInterval = 1, everyIteration = False,
                          triggerSolverPlot = False, location = ''out'' \<rparr>],
     watchPoints = 1 \<rparr>"

definition demo :: "DemoScheme SolverInterfaceImpl" where
  "demo = \<lparr>
     accessorName = ''SolverOne'',
     accessorProcessRank = 0,
     accessorCommunicatorSize = 2,
     dimensions = 2,
     accessor = demoParticipant,
     couplingScheme = Some \<lparr> ds_initialized = False, ds_time = 0, ds_remainder = 0,
                              ds_timesteps = 0, ds_exchanged = False, ds_complete = False \<rparr>,
     meshLock = (\<lambda>i. False),
     m2ns = [(''SolverTwo'', \<lparr> remoteName = ''SolverTwo'', isRequesting = True \<rparr>)],
     numberAdvanceCalls = 0,
     isMaster = True,
     isSlave = False,
     meshes = (\<lambda>i. if i = 0 then \<lparr> mesh_name = ''Fluid'', vertices = [[0, 0], [1, 0]], edges = [],
                                    triangles = [], quads = [], mesh_data = [0, 1] \<rparr>
                    else if i = 1 then \<lparr> mesh_name = ''Solid'', vertices = [[0, 0]], edges = [],
                                    triangles = [], quads = [], mesh_data = [2, 3] \<rparr>
                    else \<lparr> mesh_name = ''Aux'', vertices = [], edges = [],
                           triangles = [], quads = [], mesh_data = [] \<rparr>),
     datas = (\<lambda>i. if i = 0 then \<lparr> data_name = ''Forces'', data_dimensions = 2, data_values = [1, 2, 3, 4] \<rparr>
                   else if i = 1 then \<lparr> data_name = ''Pressure'', data_dimensions = 1, data_values = [5, 7] \<rparr>
                   else if i = 2 then \<lparr> data_name = ''Forces'', data_dimensions = 2, data_values = [8, 9] \<rparr>
                   else \<lparr> data_name = ''Pressure'', data_dimensions = 1, data_values = [6] \<rparr>),
     mappingContexts = (\<lambda>a. if a = 0 \<or> a = 2 \<or> a = 4 then demoWriteMapping
                             else if a = 1 \<or> a = 3 \<or> a = 5 then demoReadMapping
                             else demoNoMapping),
     mappings = (\<lambda>m. \<lparr> hasComputedMapping = False \<rparr>),
     trace = [] \<rparr>"

text \<open>The three mesh contexts of the example participant, by name.\<close>

definition demoAux :: MeshContext where
  "demoAux = \<lparr> mesh = 2, provideMesh = False, receiveMeshFrom = ''SolverTwo'',
           fromMappingContext = 8, toMappingContext = 9 \<rparr>"
definition demoFluid :: MeshContext where
  "demoFluid = \<lparr> mesh = 0, provideMesh = True, receiveMeshFrom = [],
           fromMappingContext = 2, toMappingContext = 3 \<rparr>"
definition demoSolid :: MeshContext where
  "demoSolid = \<lparr> mesh = 1, provideMesh = False, receiveMeshFrom = ''SolverTwo'',
           fromMappingContext = 6, toMappingContext = 7 \<rparr>"

text \<open>The scheme of the example before and after its \<open>initialize\<close>.\<close>

definition demoIdle :: DemoScheme where
  "demoIdle = \<lparr> ds_initialized = False, ds_time = 0, ds_remainder = 0,
                ds_timesteps = 0, ds_exchanged = False, ds_complete = False \<rparr>"

definition demoStarted :: DemoScheme where
  "demoStarted = \<lparr> ds_initialized = True, ds_time = 0, ds_remainder = 1,
                   ds_timesteps = 1, ds_exchanged = False, ds_complete = False \<rparr>"

text \<open>
  The example session after \<open>initialize\<close>, as far as the scheme goes, on the master rank and
  on the second rank, a slave.
\<close>

definition demoRunning :: "DemoScheme SolverInterfaceImpl" where
  "demoRunning = demo\<lparr>couplingScheme := Some demoStarted\<rparr>"


text \<open>
  A build with \<open>NDEBUG\<close> in which the slave would send the timestep length 2; and the scheme
  of the example after \<open>addComputedTime(1)\<close> and after the \<open>advance\<close> that follows.
\<close>

definition demoRelease :: Env where
  "demoRelease = \<lparr> NDEBUG = True,
             math_equals = (\<lambda>a b. \<bar>a - b\<bar> \<le> 1 / 10 ^ 14),
             ms_receive = (\<lambda>rank. 2),
             m2n_receive = (\<lambda>remote. ''pong'') \<rparr>"

definition demoAdded :: DemoScheme where
  "demoAdded = \<lparr> ds_initialized = True, ds_time = 1, ds_remainder = 0,
                 ds_timesteps = 1, ds_exchanged = False, ds_complete = False \<rparr>"

definition demoAdvanced :: DemoScheme where
  "demoAdvanced = \<lparr> ds_initialized = True, ds_time = 1, ds_remainder = 1,
                    ds_timesteps = 2, ds_exchanged = True, ds_complete = True \<rparr>"




subsection \<open>The calls expected of finalize\<close>

text \<open>
  The exporter calls of one \<open>exportMesh\<close>; the exporter calls of the export loop of \<open>finalize\<close>;
  the calls on one channel between participants in \<open>finalize\<close>, on a slave rank and on any
  other rank; and the reply that the assertion of the handshake expects.
\<close>

definition exportEvents :: "string \<Rightarrow> 'c SolverInterfaceImpl \<Rightarrow> event list" where
  "exportEvents filenameSuffix s =
     concat (map (\<lambda>context.
               map (\<lambda>meshContext.
                      Export_doExport (mesh_name (meshes s (mesh meshContext)) @ ''-'' @ filenameSuffix)
                        (location context) (mesh meshContext))
                 (usedMeshContexts (accessor s)))
             (exportContexts (accessor s)))"

definition finalExports :: "'c SolverInterfaceImpl \<Rightarrow> event list" where
  "finalExports s =
     concat (map (\<lambda>context. if timestepInterval context \<noteq> - 1
                              then exportEvents (accessorName s @ ''.final'') s else [])
               (exportContexts (accessor s)))"


definition handshakeAnswered :: "Env \<Rightarrow> string \<times> BoundM2N \<Rightarrow> bool" where
  "handshakeAnswered E iter =
     (m2n_receive E (remoteName (snd iter)) = (if isRequesting (snd iter) then ''pong'' else ''ping''))"

subsection \<open>The calls expected of advance\<close>

text \<open>
  The ranks the master receives from; the calls of the synchronisation of the timestep; the
  condition under which the synchronisation passes; the calls of \<open>performDataActions\<close> on the
  actions \<open>as\<close>; the kinds of calls made by the mapping dispatcher and by the export handling;
  the error of a failed synchronisation; and the condition that the scheme accepts
  \<open>addComputedTime\<close> and \<open>advance\<close>, every mapping context of the participant holds a mapping
  object, and no export interval is zero.
\<close>

definition syncRanks :: "'c SolverInterfaceImpl \<Rightarrow> int list" where
  "syncRanks s = map int [1..<nat (accessorCommunicatorSize s)]"

definition syncEvents :: "Env \<Rightarrow> real \<Rightarrow> 'c SolverInterfaceImpl \<Rightarrow> event list" where
  "syncEvents E dt s =
     (if NDEBUG E then []
      else if isSlave s then [MS_send dt 0]
      else if isMaster s then map (\<lambda>r. MS_receive (ms_receive E r) r) (syncRanks s)
      else [])"

definition syncAgrees :: "Env \<Rightarrow> real \<Rightarrow> 'c SolverInterfaceImpl \<Rightarrow> bool" where
  "syncAgrees E dt s =
     (NDEBUG E \<or> isSlave s \<or> \<not> isMaster s
      \<or> list_all (\<lambda>r. math_equals E (ms_receive E r) dt) (syncRanks s))"

definition actionEvents ::
  "Timing set \<Rightarrow> real \<Rightarrow> real \<Rightarrow> real \<Rightarrow> real \<Rightarrow> Timing list \<Rightarrow> event list" where
  "actionEvents timings time dt partFullDt fullDt as =
     map (\<lambda>(i, a). Action_performAction i time dt partFullDt fullDt)
       (filter (\<lambda>(i, a). a \<in> timings) (enumerate 0 as))"

definition isDispatchEvent :: "event \<Rightarrow> bool" where
  "isDispatchEvent e =
     (case e of Mapping_computeMapping m \<Rightarrow> True | Mapping_map m i j \<Rightarrow> True
      | Mapping_clear m \<Rightarrow> True | Data_zeroValues i \<Rightarrow> True | _ \<Rightarrow> False)"

definition isExportEvent :: "event \<Rightarrow> bool" where
  "isExportEvent e =
     (case e of Export_doExport n l m \<Rightarrow> True | Cpl_requireAction a \<Rightarrow> True
      | WatchPoint_exportPointData i t \<Rightarrow> True | _ \<Rightarrow> False)"

definition ambiguousTimestep :: error where
  "ambiguousTimestep = (ProtocolError,
     ''Ambiguous timestep length when calling request advance from several processes!'')"

definition stepsReturn :: "'c CouplingScheme \<Rightarrow> real \<Rightarrow> 'c SolverInterfaceImpl \<Rightarrow> bool" where
  "stepsReturn V dt s =
     ((case couplingScheme s of
         None \<Rightarrow> False
       | Some c \<Rightarrow>
           (case cs_addComputedTime V dt c of
              Inl e \<Rightarrow> False
            | Inr c1 \<Rightarrow> (case cs_advance V c1 of Inl e \<Rightarrow> False | Inr c2 \<Rightarrow> True)))
      \<and> list_all (\<lambda>a. mapping (mappingContexts s a) \<noteq> None)
           (writeMappingContexts (accessor s) @ readMappingContexts (accessor s))
      \<and> list_all (\<lambda>x. timestepInterval x \<noteq> 0) (exportContexts (accessor s)))"

subsection \<open>The calls expected of initialize\<close>







subsection \<open>Exports of finalize that ask for a solver plot\<close>


section \<open>Properties\<close>

subsection \<open>Loops and frames\<close>

lemma forEach_ok:
  assumes "I s"
    and "\<And>x t. x \<in> set xs \<Longrightarrow> I t \<Longrightarrow> \<exists>t'. body x t = (Inr (), t') \<and> I t'"
  shows "\<exists>s'. forEach body xs s = (Inr (), s') \<and> I s'"
  using assms
proof (induction xs arbitrary: s)
  case Nil
  then show ?case by simp
next
  case (Cons x xs)
  from Cons.prems obtain t where t: "body x s = (Inr (), t)" "I t" by force
  have "\<exists>s'. forEach body xs t = (Inr (), s') \<and> I s'"
    by (rule Cons.IH[OF t(2)]) (use Cons.prems(2) in auto)
  with t show ?case by simp
qed

lemma forEach_post:
  assumes "I s"
    and "\<And>x t r t'. x \<in> set xs \<Longrightarrow> I t \<Longrightarrow> body x t = (r, t') \<Longrightarrow> I t'"
  shows "I (snd (forEach body xs s))"
  using assms
proof (induction xs arbitrary: s)
  case Nil
  then show ?case by simp
next
  case (Cons x xs)
  obtain r t where rt: "body x s = (r, t)" by (cases "body x s")
  have It: "I t" using Cons.prems rt by auto
  show ?case
  proof (cases r)
    case (Inl e)
    with rt It show ?thesis by simp
  next
    case (Inr u)
    have "I (snd (forEach body xs t))"
      by (rule Cons.IH[OF It]) (use Cons.prems(2) in auto)
    with rt Inr show ?thesis by simp
  qed
qed


lemma mappingFrame_refl: "mappingFrame s s"
  by (simp add: mappingFrame_def)

lemma mappingFrame_sel:
  assumes "mappingFrame s s'"
  shows "accessor s' = accessor s" "couplingScheme s' = couplingScheme s"
    "meshLock s' = meshLock s" "m2ns s' = m2ns s" "numberAdvanceCalls s' = numberAdvanceCalls s"
    "isMaster s' = isMaster s" "isSlave s' = isSlave s" "meshes s' = meshes s"
    "accessorName s' = accessorName s" "dimensions s' = dimensions s"
    "accessorCommunicatorSize s' = accessorCommunicatorSize s"
    "accessorProcessRank s' = accessorProcessRank s"
proof -
  from assms have e: "s' = s\<lparr>datas := datas s', mappingContexts := mappingContexts s',
              mappings := mappings s', trace := trace s'\<rparr>" by (simp add: mappingFrame_def)
  show "accessor s' = accessor s" by (subst e) simp
  show "couplingScheme s' = couplingScheme s" by (subst e) simp
  show "meshLock s' = meshLock s" by (subst e) simp
  show "m2ns s' = m2ns s" by (subst e) simp
  show "numberAdvanceCalls s' = numberAdvanceCalls s" by (subst e) simp
  show "isMaster s' = isMaster s" by (subst e) simp
  show "isSlave s' = isSlave s" by (subst e) simp
  show "meshes s' = meshes s" by (subst e) simp
  show "accessorName s' = accessorName s" by (subst e) simp
  show "dimensions s' = dimensions s" by (subst e) simp
  show "accessorCommunicatorSize s' = accessorCommunicatorSize s" by (subst e) simp
  show "accessorProcessRank s' = accessorProcessRank s" by (subst e) simp
qed

lemma mappingFrame_trans:
  assumes "mappingFrame s t" "mappingFrame t u"
  shows "mappingFrame s u"
proof -
  from assms(1) have e1: "t = s\<lparr>datas := datas t, mappingContexts := mappingContexts t,
              mappings := mappings t, trace := trace t\<rparr>" by (simp add: mappingFrame_def)
  from assms(2) have e2: "u = t\<lparr>datas := datas u, mappingContexts := mappingContexts u,
              mappings := mappings u, trace := trace u\<rparr>" by (simp add: mappingFrame_def)
  have "u = s\<lparr>datas := datas u, mappingContexts := mappingContexts u,
              mappings := mappings u, trace := trace u\<rparr>"
    by (subst e2, subst e1) simp
  then show ?thesis by (simp add: mappingFrame_def)
qed

subsection \<open>The three loops of the mapping dispatcher\<close>

lemma computeMappingStep_Some:
  assumes "mapping (mappingContexts s a) = Some m"
  shows "computeMappingStep a s =
           (Inr (), if timingMatches (mappingContexts s a) \<and> \<not> hasComputedMapping (mappings s m)
                    then call_computeMapping m s else s)"
  using assms by (simp add: computeMappingStep_def timingMatches_def Let_def)

lemma call_computeMapping_sel [simp]:
  "trace (call_computeMapping m s) = trace s @ [Mapping_computeMapping m]"
  "mappingContexts (call_computeMapping m s) = mappingContexts s"
  "datas (call_computeMapping m s) = datas s"
  "hasComputedMapping (mappings (call_computeMapping m s) m') = (m' = m \<or> hasComputedMapping (mappings s m'))"
  "mappingFrame s (call_computeMapping m s)"
  by (auto simp: call_computeMapping_def emit_def mappingFrame_def)

lemma computeLoop:
  assumes wf: "\<forall>a\<in>set mcs. mapping (mappingContexts s a) \<noteq> None"
  shows "\<exists>s1 A. forEach computeMappingStep mcs s = (Inr (), s1)
      \<and> mappingFrame s s1 \<and> mappingContexts s1 = mappingContexts s \<and> datas s1 = datas s
      \<and> trace s1 = trace s @ A
      \<and> (\<forall>e\<in>set A. \<exists>m. e = Mapping_computeMapping m \<and> \<not> hasComputedMapping (mappings s m))
      \<and> (\<forall>m. hasComputedMapping (mappings s1 m)
               = (hasComputedMapping (mappings s m) \<or> Mapping_computeMapping m \<in> set A))
      \<and> (\<forall>a\<in>set mcs. \<forall>m. mapping (mappingContexts s a) = Some m
               \<and> timingMatches (mappingContexts s a) \<longrightarrow> hasComputedMapping (mappings s1 m))"
  using wf
proof (induction mcs arbitrary: s)
  case Nil
  show ?case by (simp add: mappingFrame_refl)
next
  case (Cons a mcs)
  from Cons.prems obtain m where m: "mapping (mappingContexts s a) = Some m" by auto
  define t where "t = (if timingMatches (mappingContexts s a) \<and> \<not> hasComputedMapping (mappings s m)
                    then call_computeMapping m s else s)"
  define A0 where "A0 = (if timingMatches (mappingContexts s a) \<and> \<not> hasComputedMapping (mappings s m)
                    then [Mapping_computeMapping m] else [])"
  have step: "computeMappingStep a s = (Inr (), t)"
    using computeMappingStep_Some[OF m] by (simp add: t_def)
  have t1: "mappingFrame s t" "mappingContexts t = mappingContexts s" "datas t = datas s"
    "trace t = trace s @ A0"
    by (auto simp: t_def A0_def mappingFrame_refl)
  have t2: "\<And>m'. hasComputedMapping (mappings t m')
               = (hasComputedMapping (mappings s m') \<or> Mapping_computeMapping m' \<in> set A0)"
    by (auto simp: t_def A0_def)
  have t3: "timingMatches (mappingContexts s a) \<Longrightarrow> hasComputedMapping (mappings t m)"
    by (auto simp: t_def)
  have t4: "\<forall>e\<in>set A0. \<exists>m. e = Mapping_computeMapping m \<and> \<not> hasComputedMapping (mappings s m)"
    by (auto simp: A0_def)
  have wf': "\<forall>a\<in>set mcs. mapping (mappingContexts t a) \<noteq> None"
    using Cons.prems t1(2) by simp
  from Cons.IH[OF wf'] obtain s1 A where ih:
    "forEach computeMappingStep mcs t = (Inr (), s1)"
    "mappingFrame t s1" "mappingContexts s1 = mappingContexts t" "datas s1 = datas t"
    "trace s1 = trace t @ A"
    "\<forall>e\<in>set A. \<exists>m. e = Mapping_computeMapping m \<and> \<not> hasComputedMapping (mappings t m)"
    "\<forall>m. hasComputedMapping (mappings s1 m)
               = (hasComputedMapping (mappings t m) \<or> Mapping_computeMapping m \<in> set A)"
    "\<forall>a\<in>set mcs. \<forall>m. mapping (mappingContexts t a) = Some m
               \<and> timingMatches (mappingContexts t a) \<longrightarrow> hasComputedMapping (mappings s1 m)"
    by blast
  have c1: "forEach computeMappingStep (a # mcs) s = (Inr (), s1)"
    using step ih(1) by simp
  have c2: "mappingFrame s s1" using t1(1) ih(2) by (rule mappingFrame_trans)
  have c3: "trace s1 = trace s @ (A0 @ A)" using t1(4) ih(5) by simp
  have c4: "\<forall>e\<in>set (A0 @ A). \<exists>m. e = Mapping_computeMapping m \<and> \<not> hasComputedMapping (mappings s m)"
    using t4 ih(6) t2 by auto
  have c5: "\<forall>m. hasComputedMapping (mappings s1 m)
               = (hasComputedMapping (mappings s m) \<or> Mapping_computeMapping m \<in> set (A0 @ A))"
    using ih(7) t2 by auto
  have c6: "\<forall>a'\<in>set (a # mcs). \<forall>m. mapping (mappingContexts s a') = Some m
               \<and> timingMatches (mappingContexts s a') \<longrightarrow> hasComputedMapping (mappings s1 m)"
    using ih(8) t1(2) t3 m ih(7) by auto
  show ?case
    using c1 c2 c3 c4 c5 c6 ih(3,4) t1(2,3) by (intro exI[of _ s1] exI[of _ "A0 @ A"]) simp
qed

lemma mapEvents_Cons:
  "mapEvents s (d # ds) =
     (case mapping (mappingContexts s (mappingContext d)) of
        None \<Rightarrow> []
      | Some m \<Rightarrow>
          if timingMatches (mappingContexts s (mappingContext d))
             \<and> \<not> hasMappedData (mappingContexts s (mappingContext d))
          then [Data_zeroValues (toData d), Mapping_map m (fromData d) (toData d)] else [])
     @ mapEvents s ds"
  by (simp add: mapEvents_def Let_def)

lemma mapEvents_cong:
  "mappingContexts t = mappingContexts s \<Longrightarrow> mapEvents t ds = mapEvents s ds"
  by (simp add: mapEvents_def)

lemma zeroValues_sel [simp]:
  "trace (zeroValues i s) = trace s @ [Data_zeroValues i]"
  "mappingContexts (zeroValues i s) = mappingContexts s"
  "mappings (zeroValues i s) = mappings s"
  "length (data_values (datas (zeroValues i s) j)) = length (data_values (datas s j))"
  "data_dimensions (datas (zeroValues i s) j) = data_dimensions (datas s j)"
  "mappingFrame s (zeroValues i s)"
  by (auto simp: zeroValues_def emit_def mappingFrame_def)

lemma call_map_sel [simp]:
  "trace (call_map m i j s) = trace s @ [Mapping_map m i j]"
  "mappingContexts (call_map m i j s) = mappingContexts s"
  "mappings (call_map m i j s) = mappings s"
  "datas (call_map m i j s) = datas s"
  "mappingFrame s (call_map m i j s)"
  by (auto simp: call_map_def emit_def mappingFrame_def)

lemma mapDataStep_eq:
  "\<exists>t. mapDataStep d s = (Inr (), t) \<and> mappingFrame s t
       \<and> mappingContexts t = mappingContexts s \<and> mappings t = mappings s
       \<and> trace t = trace s @ mapEvents s [d]
       \<and> (\<forall>i. length (data_values (datas t i)) = length (data_values (datas s i)))
       \<and> (\<forall>i. data_dimensions (datas t i) = data_dimensions (datas s i))"
proof (cases "mapping (mappingContexts s (mappingContext d))")
  case None
  then show ?thesis
    by (simp add: mapDataStep_def mapEvents_def Let_def mappingFrame_refl)
next
  case (Some m)
  show ?thesis
  proof (cases "timingMatches (mappingContexts s (mappingContext d))
             \<and> \<not> hasMappedData (mappingContexts s (mappingContext d))")
    case True
    have "mappingFrame s (call_map m (fromData d) (toData d) (zeroValues (toData d) s))"
      by (rule mappingFrame_trans[of _ "zeroValues (toData d) s"]) simp_all
    with Some True show ?thesis
      by (simp add: mapDataStep_def mapEvents_def Let_def timingMatches_def)
  next
    case False
    with Some show ?thesis
      by (auto simp add: mapDataStep_def mapEvents_def Let_def timingMatches_def mappingFrame_refl)
  qed
qed

lemma mapLoop:
  "\<exists>s2. forEach mapDataStep ds s = (Inr (), s2) \<and> mappingFrame s s2
       \<and> mappingContexts s2 = mappingContexts s \<and> mappings s2 = mappings s
       \<and> trace s2 = trace s @ mapEvents s ds
       \<and> (\<forall>i. length (data_values (datas s2 i)) = length (data_values (datas s i)))
       \<and> (\<forall>i. data_dimensions (datas s2 i) = data_dimensions (datas s i))"
proof (induction ds arbitrary: s)
  case Nil
  show ?case by (simp add: mappingFrame_refl mapEvents_def)
next
  case (Cons d ds)
  from mapDataStep_eq[of d s] obtain t where t:
    "mapDataStep d s = (Inr (), t)" "mappingFrame s t"
    "mappingContexts t = mappingContexts s" "mappings t = mappings s"
    "trace t = trace s @ mapEvents s [d]"
    "\<forall>i. length (data_values (datas t i)) = length (data_values (datas s i))"
    "\<forall>i. data_dimensions (datas t i) = data_dimensions (datas s i)"
    by blast
  from Cons.IH[of t] obtain s2 where ih:
    "forEach mapDataStep ds t = (Inr (), s2)" "mappingFrame t s2"
    "mappingContexts s2 = mappingContexts t" "mappings s2 = mappings t"
    "trace s2 = trace t @ mapEvents t ds"
    "\<forall>i. length (data_values (datas s2 i)) = length (data_values (datas t i))"
    "\<forall>i. data_dimensions (datas s2 i) = data_dimensions (datas t i)"
    by blast
  have "mapEvents s (d # ds) = mapEvents s [d] @ mapEvents s ds"
    by (simp add: mapEvents_def)
  moreover have "mapEvents t ds = mapEvents s ds" using t(3) by (rule mapEvents_cong)
  moreover have "mappingFrame s s2" using t(2) ih(2) by (rule mappingFrame_trans)
  ultimately show ?case using t ih by (intro exI[of _ s2]) simp
qed

lemma call_clear_sel [simp]:
  "trace (call_clear m s) = trace s @ [Mapping_clear m]"
  "mappingContexts (call_clear m s) = mappingContexts s"
  "datas (call_clear m s) = datas s"
  "hasComputedMapping (mappings (call_clear m s) m') = (m' \<noteq> m \<and> hasComputedMapping (mappings s m'))"
  "mappingFrame s (call_clear m s)"
  by (auto simp: call_clear_def emit_def mappingFrame_def)

lemma setHasMappedData_False [simp]:
  "trace (setHasMappedData a False s) = trace s"
  "datas (setHasMappedData a False s) = datas s"
  "mappings (setHasMappedData a False s) = mappings s"
  "mapping (mappingContexts (setHasMappedData a False s) b) = mapping (mappingContexts s b)"
  "timing (mappingContexts (setHasMappedData a False s) b) = timing (mappingContexts s b)"
  "hasMappedData (mappingContexts (setHasMappedData a False s) b) = (b \<noteq> a \<and> hasMappedData (mappingContexts s b))"
  "mappingFrame s (setHasMappedData a False s)"
  by (auto simp: setHasMappedData_def mappingFrame_def)

lemma clearMappingStep_eq:
  "clearMappingStep a s =
     (if timing (mappingContexts s a) \<noteq> INITIAL
      then (case mapping (mappingContexts s a) of
              None \<Rightarrow> (Inl nullPointer, s)
            | Some m \<Rightarrow> (Inr (), setHasMappedData a False (call_clear m s)))
      else (Inr (), setHasMappedData a False s))"
  by (simp add: clearMappingStep_def setHasMappedData_def Let_def split: option.splits)

lemma clearLoop:
  assumes wf: "\<forall>a\<in>set mcs. mapping (mappingContexts s a) \<noteq> None"
  shows "\<exists>s3 C. forEach clearMappingStep mcs s = (Inr (), s3)
      \<and> mappingFrame s s3 \<and> datas s3 = datas s
      \<and> trace s3 = trace s @ C
      \<and> (\<forall>e\<in>set C. \<exists>m. e = Mapping_clear m)
      \<and> (\<forall>a. mapping (mappingContexts s3 a) = mapping (mappingContexts s a)
             \<and> timing (mappingContexts s3 a) = timing (mappingContexts s a)
             \<and> (hasMappedData (mappingContexts s3 a) \<longrightarrow> hasMappedData (mappingContexts s a)))
      \<and> (\<forall>m. hasComputedMapping (mappings s3 m) \<longrightarrow> hasComputedMapping (mappings s m))
      \<and> (\<forall>m. Mapping_clear m \<in> set C \<longrightarrow> \<not> hasComputedMapping (mappings s3 m))
      \<and> (\<forall>a\<in>set mcs. \<not> hasMappedData (mappingContexts s3 a)
             \<and> (timing (mappingContexts s a) \<noteq> INITIAL \<longrightarrow>
                  (\<exists>m. mapping (mappingContexts s a) = Some m \<and> Mapping_clear m \<in> set C)))"
  using wf
proof (induction mcs arbitrary: s)
  case Nil
  show ?case by (simp add: mappingFrame_refl)
next
  case (Cons a mcs)
  from Cons.prems obtain m where m: "mapping (mappingContexts s a) = Some m" by auto
  define t where "t = (if timing (mappingContexts s a) \<noteq> INITIAL
                       then setHasMappedData a False (call_clear m s) else setHasMappedData a False s)"
  define C0 where "C0 = (if timing (mappingContexts s a) \<noteq> INITIAL then [Mapping_clear m] else [])"
  have step: "clearMappingStep a s = (Inr (), t)"
    using m by (simp add: clearMappingStep_eq t_def)
  have fr: "mappingFrame s t"
    unfolding t_def
    by (auto intro: mappingFrame_trans[of _ "call_clear m s"] setHasMappedData_False(7) call_clear_sel(5))
  have t1: "datas t = datas s" "trace t = trace s @ C0"
    "\<And>b. mapping (mappingContexts t b) = mapping (mappingContexts s b)"
    "\<And>b. timing (mappingContexts t b) = timing (mappingContexts s b)"
    "\<And>b. hasMappedData (mappingContexts t b) = (b \<noteq> a \<and> hasMappedData (mappingContexts s b))"
    "\<And>m'. hasComputedMapping (mappings t m')
        = ((timing (mappingContexts s a) \<noteq> INITIAL \<longrightarrow> m' \<noteq> m) \<and> hasComputedMapping (mappings s m'))"
    by (auto simp: t_def C0_def)
  have wf': "\<forall>a\<in>set mcs. mapping (mappingContexts t a) \<noteq> None"
    using Cons.prems t1(3) by simp
  from Cons.IH[OF wf'] obtain s3 C where ih:
    "forEach clearMappingStep mcs t = (Inr (), s3)"
    "mappingFrame t s3" "datas s3 = datas t" "trace s3 = trace t @ C"
    "\<forall>e\<in>set C. \<exists>m. e = Mapping_clear m"
    "\<forall>a. mapping (mappingContexts s3 a) = mapping (mappingContexts t a)
             \<and> timing (mappingContexts s3 a) = timing (mappingContexts t a)
             \<and> (hasMappedData (mappingContexts s3 a) \<longrightarrow> hasMappedData (mappingContexts t a))"
    "\<forall>m. hasComputedMapping (mappings s3 m) \<longrightarrow> hasComputedMapping (mappings t m)"
    "\<forall>m. Mapping_clear m \<in> set C \<longrightarrow> \<not> hasComputedMapping (mappings s3 m)"
    "\<forall>a\<in>set mcs. \<not> hasMappedData (mappingContexts s3 a)
             \<and> (timing (mappingContexts t a) \<noteq> INITIAL \<longrightarrow>
                  (\<exists>m. mapping (mappingContexts t a) = Some m \<and> Mapping_clear m \<in> set C))"
    by blast
  have c1: "forEach clearMappingStep (a # mcs) s = (Inr (), s3)" using step ih(1) by simp
  have c2: "mappingFrame s s3" using fr ih(2) by (rule mappingFrame_trans)
  have c3: "trace s3 = trace s @ (C0 @ C)" using t1(2) ih(4) by simp
  have c4: "\<forall>e\<in>set (C0 @ C). \<exists>m. e = Mapping_clear m" using ih(5) by (auto simp: C0_def)
  have c5: "\<forall>b. mapping (mappingContexts s3 b) = mapping (mappingContexts s b)
             \<and> timing (mappingContexts s3 b) = timing (mappingContexts s b)
             \<and> (hasMappedData (mappingContexts s3 b) \<longrightarrow> hasMappedData (mappingContexts s b))"
    using ih(6) t1(3,4,5) by auto
  have c6: "\<forall>m. hasComputedMapping (mappings s3 m) \<longrightarrow> hasComputedMapping (mappings s m)"
    using ih(7) t1(6) by auto
  have c7: "\<forall>m'. Mapping_clear m' \<in> set (C0 @ C) \<longrightarrow> \<not> hasComputedMapping (mappings s3 m')"
    using ih(7,8) t1(6) by (auto simp: C0_def split: if_splits)
  have c8: "\<forall>a'\<in>set (a # mcs). \<not> hasMappedData (mappingContexts s3 a')
             \<and> (timing (mappingContexts s a') \<noteq> INITIAL \<longrightarrow>
                  (\<exists>m. mapping (mappingContexts s a') = Some m \<and> Mapping_clear m \<in> set (C0 @ C)))"
    using ih(9) ih(6) t1(3,4,5) m by (auto simp: C0_def)
  show ?case
    using c1 c2 c3 c4 c5 c6 c7 c8 ih(3) t1(1)
    by (intro exI[of _ s3] exI[of _ "C0 @ C"]) simp
qed

lemma dispatch_loops:
  assumes wf: "\<forall>a\<in>set mcs. mapping (mappingContexts s a) \<noteq> None"
  shows "\<exists>s1 s2 s3.
      forEach computeMappingStep mcs s = (Inr (), s1) \<and> mappingFrame s s1
    \<and> forEach mapDataStep dcs s1 = (Inr (), s2) \<and> mappingFrame s s2
    \<and> forEach clearMappingStep mcs s2 = (Inr (), s3)
    \<and> dispatched mcs dcs s s3"
proof -
  from computeLoop[OF wf] obtain s1 A where l1:
    "forEach computeMappingStep mcs s = (Inr (), s1)"
    "mappingFrame s s1" "mappingContexts s1 = mappingContexts s" "datas s1 = datas s"
    "trace s1 = trace s @ A"
    "\<forall>e\<in>set A. \<exists>m. e = Mapping_computeMapping m \<and> \<not> hasComputedMapping (mappings s m)"
    "\<forall>m. hasComputedMapping (mappings s1 m)
               = (hasComputedMapping (mappings s m) \<or> Mapping_computeMapping m \<in> set A)"
    "\<forall>a\<in>set mcs. \<forall>m. mapping (mappingContexts s a) = Some m
               \<and> timingMatches (mappingContexts s a) \<longrightarrow> hasComputedMapping (mappings s1 m)"
    by blast
  from mapLoop[of dcs s1] obtain s2 where l2:
    "forEach mapDataStep dcs s1 = (Inr (), s2)" "mappingFrame s1 s2"
    "mappingContexts s2 = mappingContexts s1" "mappings s2 = mappings s1"
    "trace s2 = trace s1 @ mapEvents s1 dcs"
    "\<forall>i. length (data_values (datas s2 i)) = length (data_values (datas s1 i))"
    by blast
  have wf2: "\<forall>a\<in>set mcs. mapping (mappingContexts s2 a) \<noteq> None"
    using wf l1(3) l2(3) by simp
  from clearLoop[OF wf2] obtain s3 C where l3:
    "forEach clearMappingStep mcs s2 = (Inr (), s3)"
    "mappingFrame s2 s3" "datas s3 = datas s2" "trace s3 = trace s2 @ C"
    "\<forall>e\<in>set C. \<exists>m. e = Mapping_clear m"
    "\<forall>a. mapping (mappingContexts s3 a) = mapping (mappingContexts s2 a)
             \<and> timing (mappingContexts s3 a) = timing (mappingContexts s2 a)
             \<and> (hasMappedData (mappingContexts s3 a) \<longrightarrow> hasMappedData (mappingContexts s2 a))"
    "\<forall>m. hasComputedMapping (mappings s3 m) \<longrightarrow> hasComputedMapping (mappings s2 m)"
    "\<forall>m. Mapping_clear m \<in> set C \<longrightarrow> \<not> hasComputedMapping (mappings s3 m)"
    "\<forall>a\<in>set mcs. \<not> hasMappedData (mappingContexts s3 a)
             \<and> (timing (mappingContexts s2 a) \<noteq> INITIAL \<longrightarrow>
                  (\<exists>m. mapping (mappingContexts s2 a) = Some m \<and> Mapping_clear m \<in> set C))"
    by blast
  have f2: "mappingFrame s s2" using l1(2) l2(2) by (rule mappingFrame_trans)
  have f3: "mappingFrame s s3" using f2 l3(2) by (rule mappingFrame_trans)
  have ev: "mapEvents s1 dcs = mapEvents s dcs" using l1(3) by (rule mapEvents_cong)
  have mc2: "mappingContexts s2 = mappingContexts s" using l1(3) l2(3) by simp
  have d1: "trace s3 = trace s @ A @ mapEvents s dcs @ C"
    using l1(5) l2(5) l3(4) ev by simp
  have d2: "\<forall>a\<in>set mcs. \<forall>m. mapping (mappingContexts s a) = Some m
               \<and> timingMatches (mappingContexts s a) \<and> \<not> hasComputedMapping (mappings s m)
               \<longrightarrow> Mapping_computeMapping m \<in> set A"
    using l1(7,8) by blast
  have d3: "\<forall>a\<in>set mcs. \<not> hasMappedData (mappingContexts s3 a)
               \<and> (timing (mappingContexts s a) \<noteq> INITIAL \<longrightarrow>
                    (\<exists>m. mapping (mappingContexts s a) = Some m \<and> Mapping_clear m \<in> set C
                         \<and> \<not> hasComputedMapping (mappings s3 m)))"
    using l3(8,9) mc2 by auto
  have d4: "\<forall>a. mapping (mappingContexts s3 a) = mapping (mappingContexts s a)
               \<and> timing (mappingContexts s3 a) = timing (mappingContexts s a)
               \<and> (hasMappedData (mappingContexts s3 a) \<longrightarrow> hasMappedData (mappingContexts s a))"
    using l3(6) mc2 by simp
  have d5: "\<forall>i. length (data_values (datas s3 i)) = length (data_values (datas s i))"
    using l3(3) l2(6) l1(4) by simp
  have "dispatched mcs dcs s s3"
    unfolding dispatched_def
    using f3 d1 l1(6) d2 l3(5) d3 d4 d5 by (intro exI[of _ A] exI[of _ C]) simp
  with l1(1,2) l2(1) f2 l3(1) show ?thesis by blast
qed

lemma mapReadData_dispatched:
  assumes "\<forall>a\<in>set (readMappingContexts (accessor s)). mapping (mappingContexts s a) \<noteq> None"
  shows "\<exists>s'. mapReadData s = (Inr (), s')
           \<and> dispatched (readMappingContexts (accessor s)) (readDataContexts (accessor s)) s s'"
proof -
  from dispatch_loops[OF assms, of "readDataContexts (accessor s)"] obtain s1 s2 s3 where l:
    "forEach computeMappingStep (readMappingContexts (accessor s)) s = (Inr (), s1)"
    "mappingFrame s s1"
    "forEach mapDataStep (readDataContexts (accessor s)) s1 = (Inr (), s2)" "mappingFrame s s2"
    "forEach clearMappingStep (readMappingContexts (accessor s)) s2 = (Inr (), s3)"
    "dispatched (readMappingContexts (accessor s)) (readDataContexts (accessor s)) s s3"
    by blast
  have "accessor s1 = accessor s" "accessor s2 = accessor s"
    using l(2,4) by (simp_all add: mappingFrame_sel)
  with l show ?thesis by (simp add: mapReadData_def)
qed

lemma mapWrittenData_dispatched:
  assumes "\<forall>a\<in>set (writeMappingContexts (accessor s)). mapping (mappingContexts s a) \<noteq> None"
  shows "\<exists>s'. mapWrittenData s = (Inr (), s')
           \<and> dispatched (writeMappingContexts (accessor s)) (writeDataContexts (accessor s)) s s'"
proof -
  from dispatch_loops[OF assms, of "writeDataContexts (accessor s)"] obtain s1 s2 s3 where l:
    "forEach computeMappingStep (writeMappingContexts (accessor s)) s = (Inr (), s1)"
    "mappingFrame s s1"
    "forEach mapDataStep (writeDataContexts (accessor s)) s1 = (Inr (), s2)" "mappingFrame s s2"
    "forEach clearMappingStep (writeMappingContexts (accessor s)) s2 = (Inr (), s3)"
    "dispatched (writeMappingContexts (accessor s)) (writeDataContexts (accessor s)) s s3"
    by blast
  have "accessor s1 = accessor s" "accessor s2 = accessor s"
    using l(2,4) by (simp_all add: mappingFrame_sel)
  with l show ?thesis by (simp add: mapWrittenData_def)
qed

subsection \<open>Facts about meshes and the lock\<close>

lemma meshContext_mesh:
  "meshContext s meshID = Some context \<Longrightarrow> mesh context = meshID"
  by (auto simp: meshContext_def find_Some_iff)

lemma resetMesh_eq:
  assumes "meshContext s meshID = Some context"
  shows "resetMesh meshID s =
     (if timing (mappingContexts s (fromMappingContext context)) = INITIAL
         \<and> timing (mappingContexts s (toMappingContext context)) = INITIAL
      then (Inl (UsageError, ''A mesh with only initial mappings  must not be reseted''), s)
      else if mapping (mappingContexts s (fromMappingContext context)) = None
         \<and> mapping (mappingContexts s (toMappingContext context)) = None
      then (Inl (UsageError, ''A mesh with no mappings must not be reseted''), s)
      else (Inr (), clearMesh meshID (unlock meshID s)))"
  using assms meshContext_mesh[OF assms]
  by (simp add: resetMesh_def PRECICE_VALIDATE_MESH_ID_def Let_def)




lemma lockAll_locked [simp]: "meshLock (lockAll s) meshID"
  by (simp add: lockAll_def emit_def)



subsection \<open>Facts about writing and reading data\<close>

lemma sdiv_nonneg: "0 \<le> a \<Longrightarrow> 0 < b \<Longrightarrow> a sdiv b = a div (b::int)"
  by (cases "a = 0") (simp_all add: signed_divide_int_def)

lemma offset_in_range:
  assumes "0 \<le> (k::int)" "k < L sdiv D" "0 < D" "0 \<le> L" "0 \<le> d" "d < D"
  shows "0 \<le> k * D + d \<and> k * D + d < L"
proof -
  have kd: "k + 1 \<le> L div D" using assms by (simp add: sdiv_nonneg)
  have "(k + 1) * D \<le> (L div D) * D" using kd assms(3) by (simp add: mult_right_mono)
  moreover have "(L div D) * D + L mod D = L" by simp
  moreover have "0 \<le> L mod D" using assms(3) by simp
  ultimately have "(k + 1) * D \<le> L" by linarith
  then have "k * D + D \<le> L" by (simp add: algebra_simps)
  moreover have "0 \<le> k * D" using assms by simp
  ultimately show ?thesis using assms by simp
qed

lemma checkValueIndex_None:
  "checkValueIndex k n d = None \<longleftrightarrow> (0 \<le> k \<and> d \<noteq> 0 \<and> k < n sdiv d)"
  by (simp add: checkValueIndex_def)

lemma block_size_zero:
  assumes "dataContexts (accessor s) dataID \<noteq> None"
  shows "writeBlockVectorData E dataID 0 valueIndices vals s = (Inr (), s)"
    "writeBlockScalarData E dataID 0 valueIndices vals s = (Inr (), s)"
    "readBlockVectorData E dataID 0 valueIndices out s = (Inr (), out)"
    "readBlockScalarData dataID 0 valueIndices out s = (Inr (), out)"
  using assms
  by (simp_all add: writeBlockVectorData_def writeBlockScalarData_def readBlockVectorData_def
        readBlockScalarData_def PRECICE_VALIDATE_DATA_ID_def)

lemma block_not_used:
  assumes "dataContexts (accessor s) dataID \<noteq> None" "size' \<noteq> 0"
  shows "\<not> isDataWrite s dataID \<Longrightarrow>
           \<exists>msg. writeBlockVectorData E dataID size' valueIndices vals s = (Inl (UsageError, msg), s)"
    "\<not> isDataWrite s dataID \<Longrightarrow>
           \<exists>msg. writeBlockScalarData E dataID size' valueIndices vals s = (Inl (UsageError, msg), s)"
    "\<not> isDataRead s dataID \<Longrightarrow>
           \<exists>msg. readBlockVectorData E dataID size' valueIndices out s = (Inl (UsageError, msg), out)"
    "\<not> isDataRead s dataID \<Longrightarrow>
           \<exists>msg. readBlockScalarData dataID size' valueIndices out s = (Inl (UsageError, msg), out)"
  using assms
  by (simp_all add: writeBlockVectorData_def writeBlockScalarData_def readBlockVectorData_def
        readBlockScalarData_def PRECICE_VALIDATE_DATA_ID_def PRECICE_REQUIRE_DATA_WRITE_def
        PRECICE_REQUIRE_DATA_READ_def)


lemma valuesFrame_refl: "valuesFrame s s"
  by (simp add: valuesFrame_def)

lemma valuesFrame_sel:
  assumes "valuesFrame s t"
  shows "dimensions t = dimensions s" "accessor t = accessor s"
    "length (data_values (datas t i)) = length (data_values (datas s i))"
    "data_dimensions (datas t i) = data_dimensions (datas s i)"
proof -
  from assms have e: "t = s\<lparr>datas := datas t\<rparr>" by (simp add: valuesFrame_def)
  show "dimensions t = dimensions s" by (subst e) simp
  show "accessor t = accessor s" by (subst e) simp
  show "length (data_values (datas t i)) = length (data_values (datas s i))"
    "data_dimensions (datas t i) = data_dimensions (datas s i)"
    using assms by (simp_all add: valuesFrame_def)
qed

lemma valuesFrame_trans:
  assumes "valuesFrame s t" "valuesFrame t u"
  shows "valuesFrame s u"
proof -
  from assms(1) have e1: "t = s\<lparr>datas := datas t\<rparr>" by (simp add: valuesFrame_def)
  from assms(2) have e2: "u = t\<lparr>datas := datas u\<rparr>" by (simp add: valuesFrame_def)
  have "u = s\<lparr>datas := datas u\<rparr>" by (subst e2, subst e1) simp
  then show ?thesis using assms by (simp add: valuesFrame_def)
qed

lemma storeValue_ok:
  assumes "0 \<le> k" "k < int (length (data_values (datas s d)))"
  shows "\<exists>t. storeValue d k v s = (Inr (), t) \<and> valuesFrame s t"
  using assms by (simp add: storeValue_def Let_def valuesFrame_def)

lemma loadValue_ok:
  assumes "0 \<le> k" "k < int (length (data_values (datas s d)))"
  shows "loadValue s d k = Inr (data_values (datas s d) ! nat k)"
  using assms by (simp add: loadValue_def Let_def)

text \<open>The inner loop of the vector writes: the components of one vertex.\<close>

lemma storeComponents_ok:
  assumes "0 \<le> off" "off + D \<le> int (length (data_values (datas s d)))"
    and "NDEBUG E \<or> (\<forall>dim < nat D. chk dim)"
  shows "\<exists>t. forEach (\<lambda>dim u. case PRECICE_ASSERT E (chk dim) of
                                    Some e \<Rightarrow> (Inl e, u)
                                  | None \<Rightarrow> storeValue d (off + int dim) (vals dim) u)
               [0..<nat D] s = (Inr (), t) \<and> valuesFrame s t"
proof (rule forEach_ok[where I = "valuesFrame s"])
  show "valuesFrame s s" by (rule valuesFrame_refl)
next
  fix dim u
  assume dim: "dim \<in> set [0..<nat D]" and fr: "valuesFrame s u"
  have a: "PRECICE_ASSERT E (chk dim) = None"
    using assms(3) dim by (auto simp: PRECICE_ASSERT_def)
  have "0 \<le> off + int dim" "off + int dim < int (length (data_values (datas u d)))"
    using assms(1,2) dim valuesFrame_sel(3)[OF fr, of d] by auto
  from storeValue_ok[OF this] obtain t where
    "storeValue d (off + int dim) (vals dim) u = (Inr (), t)" "valuesFrame u t" by blast
  with a fr show "\<exists>t'. (case PRECICE_ASSERT E (chk dim) of
                                    Some e \<Rightarrow> (Inl e, u)
                                  | None \<Rightarrow> storeValue d (off + int dim) (vals dim) u) = (Inr (), t')
                     \<and> valuesFrame s t'"
    by (auto intro: valuesFrame_trans)
qed

lemma vertex_in_range:
  assumes "0 \<le> (k::int)" "k < int n sdiv D" "0 < D"
  shows "0 \<le> k * D" "k * D + D \<le> int n"
proof -
  have "0 \<le> k * D + 0 \<and> k * D + 0 < int n"
    by (rule offset_in_range[OF assms(1,2,3)]) (use assms in simp_all)
  then show "0 \<le> k * D" by simp
  have "0 \<le> k * D + (D - 1) \<and> k * D + (D - 1) < int n"
    by (rule offset_in_range[OF assms(1,2,3)]) (use assms in simp_all)
  then show "k * D + D \<le> int n" by simp
qed

lemma storeLoop_ok:
  assumes "0 \<le> off" "off + D \<le> int (length (data_values (datas s d)))"
  shows "\<exists>t. forEach (\<lambda>dim u. storeValue d (off + int dim) (vals dim) u) [0..<nat D] s = (Inr (), t)
             \<and> valuesFrame s t"
proof (rule forEach_ok[where I = "valuesFrame s"])
  show "valuesFrame s s" by (rule valuesFrame_refl)
next
  fix dim u
  assume dim: "dim \<in> set [0..<nat D]" and fr: "valuesFrame s u"
  have "0 \<le> off + int dim" "off + int dim < int (length (data_values (datas u d)))"
    using assms(1,2) dim valuesFrame_sel(3)[OF fr, of d] by auto
  from storeValue_ok[OF this] obtain t where
    "storeValue d (off + int dim) (vals dim) u = (Inr (), t)" "valuesFrame u t" by blast
  with fr show "\<exists>t'. storeValue d (off + int dim) (vals dim) u = (Inr (), t') \<and> valuesFrame s t'"
    by (auto intro: valuesFrame_trans)
qed

text \<open>Wrong arity: the four writing functions.\<close>

lemma write_wrong_arity:
  assumes c: "dataContexts (accessor s) dataID = Some context"
  shows
    "data_dimensions (datas s (fromData context)) \<noteq> dimensions s \<Longrightarrow>
       \<exists>msg. writeVectorData dataID valueIndex val s = (Inl (UsageError, msg), s)"
    "data_dimensions (datas s (fromData context)) \<noteq> dimensions s \<Longrightarrow> size' \<noteq> 0 \<Longrightarrow>
       \<exists>msg. writeBlockVectorData E dataID size' valueIndices vals s = (Inl (UsageError, msg), s)"
    "data_dimensions (datas s (fromData context)) \<noteq> 1 \<Longrightarrow>
       \<exists>msg. writeScalarData dataID valueIndex v s = (Inl (UsageError, msg), s)"
    "data_dimensions (datas s (fromData context)) \<noteq> 1 \<Longrightarrow> size' \<noteq> 0 \<Longrightarrow>
       \<exists>msg. writeBlockScalarData E dataID size' valueIndices vals s = (Inl (UsageError, msg), s)"
  using c
  by (simp_all add: writeVectorData_def writeBlockVectorData_def writeScalarData_def
        writeBlockScalarData_def PRECICE_VALIDATE_DATA_ID_def PRECICE_REQUIRE_DATA_WRITE_def)

text \<open>Wrong arity: the four reading functions.\<close>

lemma read_wrong_arity:
  assumes c: "dataContexts (accessor s) dataID = Some context"
  shows
    "data_dimensions (datas s (toData context)) \<noteq> dimensions s \<Longrightarrow>
       \<exists>msg. readVectorData dataID valueIndex out s = (Inl (UsageError, msg), out)"
    "data_dimensions (datas s (toData context)) \<noteq> dimensions s \<Longrightarrow> size' \<noteq> 0 \<Longrightarrow>
       \<exists>msg. readBlockVectorData E dataID size' valueIndices out s = (Inl (UsageError, msg), out)"
    "data_dimensions (datas s (toData context)) \<noteq> 1 \<Longrightarrow>
       \<exists>msg. readScalarData dataID valueIndex v s = (Inl (UsageError, msg), v)"
    "data_dimensions (datas s (toData context)) \<noteq> 1 \<Longrightarrow> size' \<noteq> 0 \<Longrightarrow>
       \<exists>msg. readBlockScalarData dataID size' valueIndices out s = (Inl (UsageError, msg), out)"
  using c
  by (simp_all add: readVectorData_def readBlockVectorData_def readScalarData_def
        readBlockScalarData_def PRECICE_VALIDATE_DATA_ID_def PRECICE_REQUIRE_DATA_READ_def)

text \<open>Matching arity: the single-value functions.\<close>

lemma writeScalarData_ok:
  assumes c: "dataContexts (accessor s) dataID = Some context"
    and w: "isDataWrite s dataID"
    and d: "data_dimensions (datas s (fromData context)) = 1"
    and i: "0 \<le> valueIndex" "valueIndex < int (length (data_values (datas s (fromData context))))"
  shows "\<exists>s'. writeScalarData dataID valueIndex v s = (Inr (), s') \<and> valuesFrame s s'"
proof -
  have k: "checkValueIndex valueIndex (int (length (data_values (datas s (fromData context))))) 1 = None"
    using i by (simp add: checkValueIndex_None sdiv_nonneg)
  from storeValue_ok[OF i] obtain t where
    "storeValue (fromData context) valueIndex v s = (Inr (), t)" "valuesFrame s t" by blast
  with c w d i k show ?thesis
    by (simp add: writeScalarData_def PRECICE_VALIDATE_DATA_ID_def PRECICE_REQUIRE_DATA_WRITE_def)
qed

lemma writeVectorData_ok:
  assumes c: "dataContexts (accessor s) dataID = Some context"
    and w: "isDataWrite s dataID"
    and d: "data_dimensions (datas s (fromData context)) = dimensions s" "0 < dimensions s"
    and i: "0 \<le> valueIndex"
           "valueIndex < int (length (data_values (datas s (fromData context)))) sdiv dimensions s"
  shows "\<exists>s'. writeVectorData dataID valueIndex val s = (Inr (), s') \<and> valuesFrame s s'"
proof -
  let ?L = "int (length (data_values (datas s (fromData context))))"
  have k: "checkValueIndex valueIndex ?L (dimensions s) = None"
    using i d by (simp add: checkValueIndex_None)
  have r: "0 \<le> valueIndex * dimensions s" "valueIndex * dimensions s + dimensions s \<le> ?L"
    by (rule vertex_in_range[OF i(1) i(2) d(2)])+
  from storeLoop_ok[OF r, of val] obtain t where
    "forEach (\<lambda>dim u. storeValue (fromData context) (valueIndex * dimensions s + int dim) (val dim) u)
        [0..<nat (dimensions s)] s = (Inr (), t)" "valuesFrame s t" by blast
  with c w d k show ?thesis
    by (simp add: writeVectorData_def PRECICE_VALIDATE_DATA_ID_def PRECICE_REQUIRE_DATA_WRITE_def
          Let_def)
qed

lemma readScalarData_ok:
  assumes c: "dataContexts (accessor s) dataID = Some context"
    and r: "isDataRead s dataID"
    and d: "data_dimensions (datas s (toData context)) = 1"
    and i: "0 \<le> valueIndex" "valueIndex < int (length (data_values (datas s (toData context))))"
  shows "readScalarData dataID valueIndex v s
           = (Inr (), data_values (datas s (toData context)) ! nat valueIndex)"
  using c r d i
  by (simp add: readScalarData_def PRECICE_VALIDATE_DATA_ID_def PRECICE_REQUIRE_DATA_READ_def
        Let_def loadValue_ok)

lemma loadLoop_ok:
  fixes pos :: "nat \<Rightarrow> nat" and out0 :: "nat \<Rightarrow> real"
  assumes "0 \<le> off" "off + D \<le> int (length (data_values (datas s d)))"
    and "NDEBUG E \<or> (\<forall>dim < nat D. chk dim)"
  shows "\<exists>out'. forEach (\<lambda>dim out. case PRECICE_ASSERT E (chk dim) of
                                    Some e \<Rightarrow> (Inl e, out)
                                  | None \<Rightarrow> (case loadValue s d (off + int dim) of
                                               Inl e \<Rightarrow> (Inl e, out)
                                             | Inr v \<Rightarrow> (Inr (), out(pos dim := v))))
               [0..<nat D] out0 = (Inr (), out')"
proof -
  have "\<exists>out'. forEach (\<lambda>dim out. case PRECICE_ASSERT E (chk dim) of
                                    Some e \<Rightarrow> (Inl e, out)
                                  | None \<Rightarrow> (case loadValue s d (off + int dim) of
                                               Inl e \<Rightarrow> (Inl e, out)
                                             | Inr v \<Rightarrow> (Inr (), out(pos dim := v))))
               [0..<nat D] out0 = (Inr (), out') \<and> True"
  proof (rule forEach_ok[where I = "\<lambda>_. True"])
    fix dim and u :: "nat \<Rightarrow> real"
    assume dim: "dim \<in> set [0..<nat D]"
    have a: "PRECICE_ASSERT E (chk dim) = None"
      using assms(3) dim by (auto simp: PRECICE_ASSERT_def)
    have "0 \<le> off + int dim" "off + int dim < int (length (data_values (datas s d)))"
      using assms(1,2) dim by auto
    from loadValue_ok[OF this] a
    show "\<exists>t'. (case PRECICE_ASSERT E (chk dim) of
                                    Some e \<Rightarrow> (Inl e, u)
                                  | None \<Rightarrow> (case loadValue s d (off + int dim) of
                                               Inl e \<Rightarrow> (Inl e, u)
                                             | Inr v \<Rightarrow> (Inr (), u(pos dim := v)))) = (Inr (), t') \<and> True"
      by simp
  qed simp
  then show ?thesis by simp
qed

lemma readVectorData_ok:
  assumes c: "dataContexts (accessor s) dataID = Some context"
    and r: "isDataRead s dataID"
    and d: "data_dimensions (datas s (toData context)) = dimensions s" "0 < dimensions s"
           "data_dimensions (datas s (fromData context)) = dimensions s"
    and i: "0 \<le> valueIndex"
           "valueIndex < int (length (data_values (datas s (toData context)))) sdiv dimensions s"
  shows "\<exists>out'. readVectorData dataID valueIndex out s = (Inr (), out')"
proof -
  let ?L = "int (length (data_values (datas s (toData context))))"
  have k: "checkValueIndex valueIndex ?L (dimensions s) = None"
    using i d by (simp add: checkValueIndex_None)
  have rg: "0 \<le> valueIndex * dimensions s" "valueIndex * dimensions s + dimensions s \<le> ?L"
    by (rule vertex_in_range[OF i(1) i(2) d(2)])+
  have n: "NDEBUG \<lparr>NDEBUG = True, math_equals = (\<lambda>a b. True), ms_receive = (\<lambda>r. 0),
                     m2n_receive = (\<lambda>r. [])\<rparr> \<or> (\<forall>dim < nat (dimensions s). True)" by simp
  from loadLoop_ok[OF rg n, of "\<lambda>dim. dim" out] obtain out' where
    "forEach (\<lambda>dim out. case loadValue s (toData context) (valueIndex * dimensions s + int dim) of
                           Inl e \<Rightarrow> (Inl e, out)
                         | Inr v \<Rightarrow> (Inr (), out(dim := v)))
        [0..<nat (dimensions s)] out = (Inr (), out')"
    by (auto simp: PRECICE_ASSERT_def)
  with c r d k i show ?thesis
    by (simp add: readVectorData_def PRECICE_VALIDATE_DATA_ID_def PRECICE_REQUIRE_DATA_READ_def
          Let_def)
qed

lemma writeBlockScalarData_ok:
  assumes c: "dataContexts (accessor s) dataID = Some context"
    and w: "size' = 0 \<or> isDataWrite s dataID"
    and d: "data_dimensions (datas s (fromData context)) = 1"
    and i: "\<forall>i < nat size'. 0 \<le> valueIndices i
              \<and> valueIndices i < int (length (data_values (datas s (fromData context))))"
    and a: "NDEBUG E \<or> size' \<le> int (length (data_values (datas s (fromData context))))"
  shows "\<exists>s'. writeBlockScalarData E dataID size' valueIndices vals s = (Inr (), s')
              \<and> valuesFrame s s'"
proof (cases "size' = 0")
  case True
  with c show ?thesis
    by (simp add: writeBlockScalarData_def PRECICE_VALIDATE_DATA_ID_def valuesFrame_refl)
next
  case False
  let ?d = "fromData context"
  have loop: "\<exists>s'. forEach
       (\<lambda>i t. case checkValueIndex (valueIndices i) (int (length (data_values (datas t ?d))))
                       (data_dimensions (datas t ?d)) of
                  Some e \<Rightarrow> (Inl e, t)
                | None \<Rightarrow>
                    (case PRECICE_ASSERT E (int i < int (length (data_values (datas t ?d)))) of
                       Some e \<Rightarrow> (Inl e, t)
                     | None \<Rightarrow> storeValue ?d (valueIndices i) (vals i) t))
       [0..<nat size'] s = (Inr (), s') \<and> valuesFrame s s'"
  proof (rule forEach_ok[where I = "valuesFrame s"])
    show "valuesFrame s s" by (rule valuesFrame_refl)
  next
    fix j t
    assume j: "j \<in> set [0..<nat size']" and fr: "valuesFrame s t"
    have len: "length (data_values (datas t ?d)) = length (data_values (datas s ?d))"
      and dim: "data_dimensions (datas t ?d) = 1"
      using valuesFrame_sel(3)[OF fr, of ?d] valuesFrame_sel(4)[OF fr, of ?d] d by simp_all
    have r: "0 \<le> valueIndices j" "valueIndices j < int (length (data_values (datas t ?d)))"
      using i j len by auto
    have k: "checkValueIndex (valueIndices j) (int (length (data_values (datas t ?d)))) 1 = None"
      using r by (simp add: checkValueIndex_None sdiv_nonneg)
    have as: "PRECICE_ASSERT E (int j < int (length (data_values (datas t ?d)))) = None"
      using a j len by (auto simp: PRECICE_ASSERT_def)
    from storeValue_ok[OF r] obtain t' where
      "storeValue ?d (valueIndices j) (vals j) t = (Inr (), t')" "valuesFrame t t'" by blast
    with k as dim fr
    show "\<exists>t'. (case checkValueIndex (valueIndices j) (int (length (data_values (datas t ?d))))
                       (data_dimensions (datas t ?d)) of
                  Some e \<Rightarrow> (Inl e, t)
                | None \<Rightarrow>
                    (case PRECICE_ASSERT E (int j < int (length (data_values (datas t ?d)))) of
                       Some e \<Rightarrow> (Inl e, t)
                     | None \<Rightarrow> storeValue ?d (valueIndices j) (vals j) t)) = (Inr (), t')
              \<and> valuesFrame s t'"
      by (auto intro: valuesFrame_trans)
  qed
  then show ?thesis
    unfolding writeBlockScalarData_def Let_def using c w d False
    by (simp add: PRECICE_VALIDATE_DATA_ID_def PRECICE_REQUIRE_DATA_WRITE_def)
qed

lemma writeBlockVectorData_ok:
  assumes c: "dataContexts (accessor s) dataID = Some context"
    and w: "size' = 0 \<or> isDataWrite s dataID"
    and d: "data_dimensions (datas s (fromData context)) = dimensions s" "0 < dimensions s"
    and i: "\<forall>i < nat size'. 0 \<le> valueIndices i
              \<and> valueIndices i < int (length (data_values (datas s (fromData context)))) sdiv dimensions s"
    and a: "NDEBUG E
            \<or> size' * dimensions s \<le> int (length (data_values (datas s (fromData context))))"
  shows "\<exists>s'. writeBlockVectorData E dataID size' valueIndices vals s = (Inr (), s')
              \<and> valuesFrame s s'"
proof (cases "size' = 0")
  case True
  with c show ?thesis
    by (simp add: writeBlockVectorData_def PRECICE_VALIDATE_DATA_ID_def valuesFrame_refl)
next
  case False
  let ?d = "fromData context"
  let ?D = "dimensions s"
  let ?L = "int (length (data_values (datas s ?d)))"
  have loop: "\<exists>s'. forEach
       (\<lambda>i t. case checkValueIndex (valueIndices i) (int (length (data_values (datas t ?d))))
                       (data_dimensions (datas t ?d)) of
                  Some e \<Rightarrow> (Inl e, t)
                | None \<Rightarrow>
                    forEach
                      (\<lambda>dim u. case PRECICE_ASSERT E
                                       (int i * dimensions t + int dim
                                          < int (length (data_values (datas u ?d)))) of
                                  Some e \<Rightarrow> (Inl e, u)
                                | None \<Rightarrow>
                                    storeValue ?d (valueIndices i * dimensions t + int dim)
                                      (vals (nat (int i * dimensions t + int dim))) u)
                      [0..<nat (dimensions t)] t)
       [0..<nat size'] s = (Inr (), s') \<and> valuesFrame s s'"
  proof (rule forEach_ok[where I = "valuesFrame s"])
    show "valuesFrame s s" by (rule valuesFrame_refl)
  next
    fix j t
    assume j: "j \<in> set [0..<nat size']" and fr: "valuesFrame s t"
    have len: "length (data_values (datas t ?d)) = length (data_values (datas s ?d))"
      and dim: "data_dimensions (datas t ?d) = ?D" and dt: "dimensions t = ?D"
      using valuesFrame_sel(1)[OF fr] valuesFrame_sel(3)[OF fr, of ?d]
        valuesFrame_sel(4)[OF fr, of ?d] d by simp_all
    have r: "0 \<le> valueIndices j" "valueIndices j < ?L sdiv ?D"
      using i j by auto
    have k: "checkValueIndex (valueIndices j) ?L ?D = None"
      using r d by (simp add: checkValueIndex_None)
    have rg: "0 \<le> valueIndices j * ?D" "valueIndices j * ?D + ?D \<le> int (length (data_values (datas t ?d)))"
      using vertex_in_range[OF r d(2)] len by simp_all
    have inner: "\<exists>t'. forEach
                      (\<lambda>dim u. case PRECICE_ASSERT E
                                       (int j * ?D + int dim
                                          < int (length (data_values (datas u ?d)))) of
                                  Some e \<Rightarrow> (Inl e, u)
                                | None \<Rightarrow>
                                    storeValue ?d (valueIndices j * ?D + int dim)
                                      (vals (nat (int j * ?D + int dim))) u)
                      [0..<nat ?D] t = (Inr (), t') \<and> valuesFrame t t'"
    proof (rule forEach_ok[where I = "valuesFrame t"])
      show "valuesFrame t t" by (rule valuesFrame_refl)
    next
      fix dm u
      assume dm: "dm \<in> set [0..<nat ?D]" and fu: "valuesFrame t u"
      have lenu: "length (data_values (datas u ?d)) = length (data_values (datas s ?d))"
        using valuesFrame_sel(3)[OF fu, of ?d] len by simp
      have "NDEBUG E \<or> int j * ?D + int dm < ?L"
      proof (cases "NDEBUG E")
        case True then show ?thesis by simp
      next
        case False
        with a have sz: "size' * ?D \<le> ?L" by simp
        have "int j + 1 \<le> size'" using j by auto
        then have "(int j + 1) * ?D \<le> size' * ?D" using d(2) by (simp add: mult_right_mono)
        then have "int j * ?D + ?D \<le> ?L" using sz by (simp add: algebra_simps)
        moreover have "int dm < ?D" using dm by auto
        ultimately show ?thesis by simp
      qed
      then have as: "PRECICE_ASSERT E (int j * ?D + int dm < int (length (data_values (datas u ?d)))) = None"
        using lenu by (auto simp: PRECICE_ASSERT_def)
      have "0 \<le> valueIndices j * ?D + int dm"
           "valueIndices j * ?D + int dm < int (length (data_values (datas u ?d)))"
        using rg dm lenu len by auto
      from storeValue_ok[OF this] obtain u' where
        "storeValue ?d (valueIndices j * ?D + int dm) (vals (nat (int j * ?D + int dm))) u = (Inr (), u')"
        "valuesFrame u u'" by blast
      with as fu
      show "\<exists>t'. (case PRECICE_ASSERT E
                                       (int j * ?D + int dm
                                          < int (length (data_values (datas u ?d)))) of
                                  Some e \<Rightarrow> (Inl e, u)
                                | None \<Rightarrow>
                                    storeValue ?d (valueIndices j * ?D + int dm)
                                      (vals (nat (int j * ?D + int dm))) u) = (Inr (), t')
                \<and> valuesFrame t t'"
        by (auto intro: valuesFrame_trans)
    qed
    then obtain t' where t': "forEach
                      (\<lambda>dim u. case PRECICE_ASSERT E
                                       (int j * ?D + int dim
                                          < int (length (data_values (datas u ?d)))) of
                                  Some e \<Rightarrow> (Inl e, u)
                                | None \<Rightarrow>
                                    storeValue ?d (valueIndices j * ?D + int dim)
                                      (vals (nat (int j * ?D + int dim))) u)
                      [0..<nat ?D] t = (Inr (), t')" "valuesFrame t t'" by blast
    have ft: "valuesFrame s t'" using fr t'(2) by (rule valuesFrame_trans)
    show "\<exists>t'. (case checkValueIndex (valueIndices j) (int (length (data_values (datas t ?d))))
                       (data_dimensions (datas t ?d)) of
                  Some e \<Rightarrow> (Inl e, t)
                | None \<Rightarrow>
                    forEach
                      (\<lambda>dim u. case PRECICE_ASSERT E
                                       (int j * dimensions t + int dim
                                          < int (length (data_values (datas u ?d)))) of
                                  Some e \<Rightarrow> (Inl e, u)
                                | None \<Rightarrow>
                                    storeValue ?d (valueIndices j * dimensions t + int dim)
                                      (vals (nat (int j * dimensions t + int dim))) u)
                      [0..<nat (dimensions t)] t) = (Inr (), t') \<and> valuesFrame s t'"
      unfolding dt dim len using k t'(1) ft by simp
  qed
  then show ?thesis
    unfolding writeBlockVectorData_def Let_def using c w d False
    by (simp add: PRECICE_VALIDATE_DATA_ID_def PRECICE_REQUIRE_DATA_WRITE_def)
qed

lemma readBlockScalarData_ok:
  fixes out :: "nat \<Rightarrow> real"
  assumes c: "dataContexts (accessor s) dataID = Some context"
    and r: "size' = 0 \<or> isDataRead s dataID"
    and d: "data_dimensions (datas s (toData context)) = 1"
    and i: "\<forall>i < nat size'. 0 \<le> valueIndices i
              \<and> valueIndices i < int (length (data_values (datas s (toData context))))"
  shows "\<exists>out'. readBlockScalarData dataID size' valueIndices out s = (Inr (), out')"
proof (cases "size' = 0")
  case True
  with c show ?thesis
    by (simp add: readBlockScalarData_def PRECICE_VALIDATE_DATA_ID_def)
next
  case False
  let ?d = "toData context"
  have "\<exists>out'. forEach
       (\<lambda>i out. if \<not> (0 \<le> valueIndices i
                          \<and> valueIndices i < int (length (data_values (datas s ?d))))
                  then (Inl (UsageError, ''Value index out of range''), out)
                  else (case loadValue s ?d (valueIndices i) of
                          Inl e \<Rightarrow> (Inl e, out)
                        | Inr v \<Rightarrow> (Inr (), out(i := v))))
       [0..<nat size'] out = (Inr (), out') \<and> True"
  proof (rule forEach_ok[where I = "\<lambda>_. True"])
    fix j and u :: "nat \<Rightarrow> real"
    assume j: "j \<in> set [0..<nat size']"
    have rg: "0 \<le> valueIndices j" "valueIndices j < int (length (data_values (datas s ?d)))"
      using i j by auto
    from loadValue_ok[OF rg] rg
    show "\<exists>t'. (if \<not> (0 \<le> valueIndices j
                          \<and> valueIndices j < int (length (data_values (datas s ?d))))
                  then (Inl (UsageError, ''Value index out of range''), u)
                  else (case loadValue s ?d (valueIndices j) of
                          Inl e \<Rightarrow> (Inl e, u)
                        | Inr v \<Rightarrow> (Inr (), u(j := v)))) = (Inr (), t') \<and> True"
      by simp
  qed simp
  then show ?thesis
    unfolding readBlockScalarData_def Let_def using c r d False
    by (simp add: PRECICE_VALIDATE_DATA_ID_def PRECICE_REQUIRE_DATA_READ_def)
qed

lemma readBlockVectorData_ok:
  fixes out :: "nat \<Rightarrow> real"
  assumes c: "dataContexts (accessor s) dataID = Some context"
    and r: "size' = 0 \<or> isDataRead s dataID"
    and d: "data_dimensions (datas s (toData context)) = dimensions s" "0 < dimensions s"
           "data_dimensions (datas s (fromData context)) = dimensions s"
    and i: "\<forall>i < nat size'. 0 \<le> valueIndices i
              \<and> valueIndices i < int (length (data_values (datas s (toData context)))) sdiv dimensions s"
  shows "\<exists>out'. readBlockVectorData E dataID size' valueIndices out s = (Inr (), out')"
proof (cases "size' = 0")
  case True
  with c show ?thesis
    by (simp add: readBlockVectorData_def PRECICE_VALIDATE_DATA_ID_def)
next
  case False
  let ?d = "toData context"
  let ?D = "dimensions s"
  let ?L = "int (length (data_values (datas s ?d)))"
  have "\<exists>out'. forEach
       (\<lambda>i out. case checkValueIndex (valueIndices i) ?L
                         (data_dimensions (datas s (fromData context))) of
                    Some e \<Rightarrow> (Inl e, out)
                  | None \<Rightarrow>
                      forEach
                        (\<lambda>dim out'. case PRECICE_ASSERT E (valueIndices i * ?D + int dim < ?L) of
                                       Some e \<Rightarrow> (Inl e, out')
                                     | None \<Rightarrow>
                                         (case loadValue s ?d (valueIndices i * ?D + int dim) of
                                            Inl e \<Rightarrow> (Inl e, out')
                                          | Inr v \<Rightarrow>
                                              (Inr (), out'(nat (int i * ?D + int dim) := v))))
                        [0..<nat ?D] out)
       [0..<nat size'] out = (Inr (), out') \<and> True"
  proof (rule forEach_ok[where I = "\<lambda>_. True"])
    fix j and u :: "nat \<Rightarrow> real"
    assume j: "j \<in> set [0..<nat size']"
    have rg0: "0 \<le> valueIndices j" "valueIndices j < ?L sdiv ?D"
      using i j by auto
    have k: "checkValueIndex (valueIndices j) ?L ?D = None"
      using rg0 d by (simp add: checkValueIndex_None)
    have rg: "0 \<le> valueIndices j * ?D" "valueIndices j * ?D + ?D \<le> ?L"
      by (rule vertex_in_range[OF rg0 d(2)])+
    have as: "NDEBUG E \<or> (\<forall>dim < nat ?D. valueIndices j * ?D + int dim < ?L)"
      using rg by auto
    from loadLoop_ok[OF rg as, of "\<lambda>dim. nat (int j * ?D + int dim)" u] k d(3)
    show "\<exists>t'. (case checkValueIndex (valueIndices j) ?L
                         (data_dimensions (datas s (fromData context))) of
                    Some e \<Rightarrow> (Inl e, u)
                  | None \<Rightarrow>
                      forEach
                        (\<lambda>dim out'. case PRECICE_ASSERT E (valueIndices j * ?D + int dim < ?L) of
                                       Some e \<Rightarrow> (Inl e, out')
                                     | None \<Rightarrow>
                                         (case loadValue s ?d (valueIndices j * ?D + int dim) of
                                            Inl e \<Rightarrow> (Inl e, out')
                                          | Inr v \<Rightarrow>
                                              (Inr (), out'(nat (int j * ?D + int dim) := v))))
                        [0..<nat ?D] u) = (Inr (), t') \<and> True"
      by simp
  qed simp
  then show ?thesis
    unfolding readBlockVectorData_def Let_def using c r d False
    by (simp add: PRECICE_VALIDATE_DATA_ID_def PRECICE_REQUIRE_DATA_READ_def)
qed

subsection \<open>Unfolding the example\<close>

lemmas demo_defs = demo_def demoParticipant_def demoReadContext_def demoWriteContext_def
  demoReadMapping_def demoWriteMapping_def demoNoMapping_def

lemmas dispatch_defs = mapReadData_def mapWrittenData_def computeMappingStep_def mapDataStep_def
  clearMappingStep_def call_computeMapping_def call_map_def call_clear_def zeroValues_def
  setHasMappedData_def emit_def nullPointer_def


subsection \<open>Frames of the partition step\<close>

lemma emit_sel [simp]:
  "trace (emit evs s) = trace s @ evs"
  "accessor (emit evs s) = accessor s"
  "couplingScheme (emit evs s) = couplingScheme s"
  "mappingContexts (emit evs s) = mappingContexts s"
  "mappings (emit evs s) = mappings s"
  "datas (emit evs s) = datas s"
  "meshes (emit evs s) = meshes s"
  "m2ns (emit evs s) = m2ns s"
  "meshLock (emit evs s) = meshLock s"
  "isMaster (emit evs s) = isMaster s"
  "isSlave (emit evs s) = isSlave s"
  "numberAdvanceCalls (emit evs s) = numberAdvanceCalls s"
  "accessorName (emit evs s) = accessorName s"
  "accessorCommunicatorSize (emit evs s) = accessorCommunicatorSize s"
  "dimensions (emit evs s) = dimensions s"
  by (simp_all add: emit_def)

lemma fold_datas_frame:
  fixes s :: "'c SolverInterfaceImpl"
  assumes "\<And>x (t :: 'c SolverInterfaceImpl). \<exists>D. f x t = t\<lparr>datas := D\<rparr>"
  shows "\<exists>D. fold f xs s = s\<lparr>datas := D\<rparr>"
proof (induction xs arbitrary: s)
  case Nil
  show ?case by (auto intro: exI[of _ "datas s"])
next
  case (Cons x xs)
  from assms[of x s] obtain D0 where d0: "f x s = s\<lparr>datas := D0\<rparr>" by blast
  from Cons.IH[of "s\<lparr>datas := D0\<rparr>"] obtain D where
    "fold f xs (s\<lparr>datas := D0\<rparr>) = s\<lparr>datas := D0\<rparr>\<lparr>datas := D\<rparr>" by blast
  then have "fold f (x # xs) s = s\<lparr>datas := D\<rparr>" using d0 by simp
  then show ?case by blast
qed

lemma allocateDataValues_frame: "\<exists>D. allocateDataValues meshID s = s\<lparr>datas := D\<rparr>"
  unfolding allocateDataValues_def by (rule fold_datas_frame) blast

lemma allocateDataValues_sel [simp]:
  "trace (allocateDataValues meshID s) = trace s"
  "accessor (allocateDataValues meshID s) = accessor s"
  "couplingScheme (allocateDataValues meshID s) = couplingScheme s"
  "mappingContexts (allocateDataValues meshID s) = mappingContexts s"
  "mappings (allocateDataValues meshID s) = mappings s"
  "m2ns (allocateDataValues meshID s) = m2ns s"
  "meshLock (allocateDataValues meshID s) = meshLock s"
  "meshes (allocateDataValues meshID s) = meshes s"
  "isMaster (allocateDataValues meshID s) = isMaster s"
  "isSlave (allocateDataValues meshID s) = isSlave s"
proof -
  from allocateDataValues_frame[of meshID s] obtain D where
    e: "allocateDataValues meshID s = s\<lparr>datas := D\<rparr>" by blast
  show "trace (allocateDataValues meshID s) = trace s"
  "accessor (allocateDataValues meshID s) = accessor s"
  "couplingScheme (allocateDataValues meshID s) = couplingScheme s"
  "mappingContexts (allocateDataValues meshID s) = mappingContexts s"
  "mappings (allocateDataValues meshID s) = mappings s"
  "m2ns (allocateDataValues meshID s) = m2ns s"
  "meshLock (allocateDataValues meshID s) = meshLock s"
  "meshes (allocateDataValues meshID s) = meshes s"
  "isMaster (allocateDataValues meshID s) = isMaster s"
  "isSlave (allocateDataValues meshID s) = isSlave s"
    by (simp_all add: e)
qed

text \<open>The second loop of \<open>computePartitions\<close>.\<close>

lemma computeLoop_sel:
  fixes cs :: "MeshContext list"
  defines "step \<equiv> (\<lambda>meshContext t.
              allocateDataValues (mesh meshContext)
                (emit [Partition_compute (mesh meshContext),
                       Mesh_computeState (mesh meshContext),
                       Mesh_allocateDataValues (mesh meshContext)] t))"
  shows "trace (fold step cs s) = trace s @ concat (map (\<lambda>c. [Partition_compute (mesh c),
                       Mesh_computeState (mesh c), Mesh_allocateDataValues (mesh c)]) cs)"
    "accessor (fold step cs s) = accessor s"
    "couplingScheme (fold step cs s) = couplingScheme s"
    "mappingContexts (fold step cs s) = mappingContexts s"
    "mappings (fold step cs s) = mappings s"
    "m2ns (fold step cs s) = m2ns s"
    "meshLock (fold step cs s) = meshLock s"
    "isMaster (fold step cs s) = isMaster s"
    "isSlave (fold step cs s) = isSlave s"
  by (induction cs arbitrary: s; simp add: step_def)+

lemma computePartitions_trace:
  "trace (computePartitions s) = trace s
     @ map (\<lambda>c. Partition_communicate (mesh c))
         (sort_key (\<lambda>c. mesh_name (meshes s (mesh c))) (usedMeshContexts (accessor s)))
     @ concat (map (\<lambda>c. [Partition_compute (mesh c), Mesh_computeState (mesh c),
                           Mesh_allocateDataValues (mesh c)])
         (stable_partition provideMesh
            (sort_key (\<lambda>c. mesh_name (meshes s (mesh c))) (usedMeshContexts (accessor s)))))"
  by (simp add: computePartitions_def Let_def computeLoop_sel)

lemma computePartitions_sel:
  "usedMeshContexts (accessor (computePartitions s))
     = stable_partition provideMesh
         (sort_key (\<lambda>c. mesh_name (meshes s (mesh c))) (usedMeshContexts (accessor s)))"
  "readMappingContexts (accessor (computePartitions s)) = readMappingContexts (accessor s)"
  "writeMappingContexts (accessor (computePartitions s)) = writeMappingContexts (accessor s)"
  "readDataContexts (accessor (computePartitions s)) = readDataContexts (accessor s)"
  "writeDataContexts (accessor (computePartitions s)) = writeDataContexts (accessor s)"
  "actions (accessor (computePartitions s)) = actions (accessor s)"
  "exportContexts (accessor (computePartitions s)) = exportContexts (accessor s)"
  "watchPoints (accessor (computePartitions s)) = watchPoints (accessor s)"
  "couplingScheme (computePartitions s) = couplingScheme s"
  "mappingContexts (computePartitions s) = mappingContexts s"
  "mappings (computePartitions s) = mappings s"
  "m2ns (computePartitions s) = m2ns s"
  "isMaster (computePartitions s) = isMaster s"
  "isSlave (computePartitions s) = isSlave s"
  by (simp_all add: computePartitions_def Let_def computeLoop_sel)

lemma filter_eq_singleton:
  "distinct ys \<Longrightarrow> k \<in> set ys \<Longrightarrow> filter (\<lambda>x. k = x) ys = [k]"
  by (induction ys) (auto simp: filter_empty_conv)

lemma sorted_unique:
  fixes f :: "'a \<Rightarrow> 'k::linorder"
  assumes "distinct (map f xs)" "mset ys = mset xs" "sorted (map f ys)"
  shows "ys = sort_key f xs"
proof -
  have dx: "distinct xs" and inj: "inj_on f (set xs)"
    using assms(1) by (simp_all add: distinct_map)
  have sy: "set ys = set xs" using assms(2) by (rule mset_eq_setD)
  have dy: "distinct ys" using dx assms(2) by (metis mset_eq_imp_distinct_iff)
  have "\<forall>k\<in>set ys. filter (\<lambda>x. f k = f x) ys = filter (\<lambda>x. f k = f x) xs"
  proof
    fix k assume k: "k \<in> set ys"
    have a: "filter (\<lambda>x. f k = f x) ys = filter (\<lambda>x. k = x) ys"
      by (rule filter_cong) (use k sy inj in \<open>auto dest: inj_onD\<close>)
    have b: "filter (\<lambda>x. f k = f x) xs = filter (\<lambda>x. k = x) xs"
      by (rule filter_cong) (use k sy inj in \<open>auto dest: inj_onD\<close>)
    have "filter (\<lambda>x. k = x) ys = [k]" using dy k by (rule filter_eq_singleton)
    moreover have "filter (\<lambda>x. k = x) xs = [k]" using dx k sy by (auto intro: filter_eq_singleton)
    ultimately show "filter (\<lambda>x. f k = f x) ys = filter (\<lambda>x. f k = f x) xs"
      using a b by simp
  qed
  with assms(2,3) have "sort_key f xs = ys" by (intro properties_for_sort_key) auto
  then show ?thesis by simp
qed


subsection \<open>Facts about the lifecycle calls\<close>

lemma performDataActions_sel [simp]:
  "trace (performDataActions T time dt part full s)
     = trace s @ map (\<lambda>(i, a). Action_performAction i time dt part full)
                   (filter (\<lambda>(i, a). a \<in> T) (enumerate 0 (actions (accessor s))))"
  "accessor (performDataActions T time dt part full s) = accessor s"
  "couplingScheme (performDataActions T time dt part full s) = couplingScheme s"
  "mappingContexts (performDataActions T time dt part full s) = mappingContexts s"
  "mappings (performDataActions T time dt part full s) = mappings s"
  "datas (performDataActions T time dt part full s) = datas s"
  "meshes (performDataActions T time dt part full s) = meshes s"
  "m2ns (performDataActions T time dt part full s) = m2ns s"
  "meshLock (performDataActions T time dt part full s) = meshLock s"
  "isMaster (performDataActions T time dt part full s) = isMaster s"
  "isSlave (performDataActions T time dt part full s) = isSlave s"
  "numberAdvanceCalls (performDataActions T time dt part full s) = numberAdvanceCalls s"
  "accessorName (performDataActions T time dt part full s) = accessorName s"
  by (simp_all add: performDataActions_def)

lemma lockAll_sel [simp]:
  "trace (lockAll s) = trace s @ [MeshLock_lockAll]"
  "accessor (lockAll s) = accessor s"
  "couplingScheme (lockAll s) = couplingScheme s"
  "mappingContexts (lockAll s) = mappingContexts s"
  "mappings (lockAll s) = mappings s"
  "datas (lockAll s) = datas s"
  "meshes (lockAll s) = meshes s"
  "m2ns (lockAll s) = m2ns s"
  "isMaster (lockAll s) = isMaster s"
  "isSlave (lockAll s) = isSlave s"
  "numberAdvanceCalls (lockAll s) = numberAdvanceCalls s"
  "accessorName (lockAll s) = accessorName s"
  by (simp_all add: lockAll_def)

text \<open>What a run of the dispatcher leaves alone.\<close>

lemma dispatched_sel:
  assumes "dispatched mcs dcs s s'"
  shows "accessor s' = accessor s" "couplingScheme s' = couplingScheme s"
    "m2ns s' = m2ns s" "isMaster s' = isMaster s" "isSlave s' = isSlave s"
    "meshLock s' = meshLock s" "numberAdvanceCalls s' = numberAdvanceCalls s"
    "accessorName s' = accessorName s" "accessorCommunicatorSize s' = accessorCommunicatorSize s"
    "\<And>a. mapping (mappingContexts s' a) = mapping (mappingContexts s a)"
proof -
  from assms have f: "mappingFrame s s'" unfolding dispatched_def by blast
  show "accessor s' = accessor s" "couplingScheme s' = couplingScheme s"
    "m2ns s' = m2ns s" "isMaster s' = isMaster s" "isSlave s' = isSlave s"
    "meshLock s' = meshLock s" "numberAdvanceCalls s' = numberAdvanceCalls s"
    "accessorName s' = accessorName s" "accessorCommunicatorSize s' = accessorCommunicatorSize s"
    by (rule mappingFrame_sel[OF f])+
  from assms show "\<And>a. mapping (mappingContexts s' a) = mapping (mappingContexts s a)"
    unfolding dispatched_def by blast
qed

lemma demo_scheme:
  "couplingScheme demo = Some demoIdle"
  "cs_initialize demoV 0 1 demoIdle = Inr demoStarted"
  "cs_initialize demoV 0 1 demoStarted = Inr demoStarted"
  "cs_getNextTimestepMaxLength demoV demoStarted = 1"
  "cs_isInitialized demoV demoStarted"
  "\<forall>a\<in>set (readMappingContexts (accessor demo)). mapping (mappingContexts demo a) \<noteq> None"
  by (simp_all add: demo_defs demoV_def demoIdle_def demoStarted_def)

subsection \<open>Facts about finalize\<close>

lemma emit_emit [simp]: "emit b (emit a s) = emit (a @ b) s"
  by (simp add: emit_def)

lemma emit_Nil [simp]: "emit [] s = s"
  by (simp add: emit_def)

lemma exportMesh_eq: "exportMesh suffix s = emit (exportEvents suffix s) s"
  by (simp add: exportMesh_def exportEvents_def)

lemma exportEvents_emit [simp]: "exportEvents suffix (emit evs s) = exportEvents suffix s"
  by (simp add: exportEvents_def)




lemma demoRunning_facts:
  "couplingScheme demoRunning = Some demoStarted"
  "cs_finalize demoV demoStarted = Inr demoStarted"
  "\<forall>x\<in>set (exportContexts (accessor demoRunning)). timestepInterval x \<noteq> - 1 \<longrightarrow> \<not> triggerSolverPlot x"
  "\<forall>iter\<in>set (m2ns demoRunning). handshakeAnswered demoE iter"
  "trace demoRunning = []"
  "finalExports demoRunning = [Export_doExport ''Solid-SolverOne.final'' ''out'' 1,
      Export_doExport ''Fluid-SolverOne.final'' ''out'' 0,
      Export_doExport ''Aux-SolverOne.final'' ''out'' 2]"
  "m2ns demoRunning = [(''SolverTwo'', \<lparr> remoteName = ''SolverTwo'', isRequesting = True \<rparr>)]"
  "isMaster demoRunning" "\<not> isSlave demoRunning"
  by (simp_all add: demoRunning_def demo_defs demoV_def demoE_def handshakeAnswered_def
        finalExports_def exportEvents_def)


subsection \<open>Facts about advance\<close>

lemma emit_update [simp]:
  "(emit evs s)\<lparr>couplingScheme := x\<rparr> = emit evs (s\<lparr>couplingScheme := x\<rparr>)"
  by (simp add: emit_def)

lemma performDataActions_eq:
  "performDataActions T time dt part full s
     = emit (actionEvents T time dt part full (actions (accessor s))) s"
  by (simp add: performDataActions_def actionEvents_def)

lemma lockAll_emit: "lockAll (emit evs s) = emit (evs @ [MeshLock_lockAll]) (s\<lparr>meshLock := (\<lambda>_. True)\<rparr>)"
  by (simp add: lockAll_def emit_def)

subsection \<open>Facts about syncTimestep\<close>

lemma syncLoop_ok:
  assumes "list_all (\<lambda>r. math_equals E (ms_receive E r) dt) rs"
  shows "forEach
           (\<lambda>rankSlave t.
              let dt' = ms_receive E rankSlave;
                  t1 = emit [MS_receive dt' rankSlave] t
              in if math_equals E dt' dt then (Inr (), t1) else (Inl err, t1))
           rs s
         = (Inr (), emit (map (\<lambda>r. MS_receive (ms_receive E r) r) rs) s)"
  using assms
proof (induction rs arbitrary: s)
  case Nil
  show ?case by simp
next
  case (Cons r rs)
  then show ?case by (simp add: Let_def)
qed

lemma syncLoop_mismatch:
  assumes "\<not> list_all (\<lambda>r. math_equals E (ms_receive E r) dt) rs"
  shows "forEach
           (\<lambda>rankSlave t.
              let dt' = ms_receive E rankSlave;
                  t1 = emit [MS_receive dt' rankSlave] t
              in if math_equals E dt' dt then (Inr (), t1) else (Inl err, t1))
           rs s
         = (Inl err, emit (map (\<lambda>r. MS_receive (ms_receive E r) r)
                            (takeWhile (\<lambda>r. math_equals E (ms_receive E r) dt) rs
                             @ [hd (dropWhile (\<lambda>r. math_equals E (ms_receive E r) dt) rs)])) s)"
  using assms
proof (induction rs arbitrary: s)
  case Nil
  then show ?case by simp
next
  case (Cons r rs)
  show ?case
  proof (cases "math_equals E (ms_receive E r) dt")
    case True
    with Cons.prems have "\<not> list_all (\<lambda>r. math_equals E (ms_receive E r) dt) rs" by simp
    from Cons.IH[OF this] True show ?thesis by (simp add: Let_def)
  next
    case False
    then show ?thesis by (simp add: Let_def)
  qed
qed

lemma sync_ok:
  assumes "syncAgrees E dt s"
  shows "(if \<not> NDEBUG E \<and> (isMaster (s\<lparr>numberAdvanceCalls := n\<rparr>) \<or> isSlave (s\<lparr>numberAdvanceCalls := n\<rparr>))
          then syncTimestep E dt (s\<lparr>numberAdvanceCalls := n\<rparr>)
          else (Inr (), s\<lparr>numberAdvanceCalls := n\<rparr>))
         = (Inr (), emit (syncEvents E dt s) (s\<lparr>numberAdvanceCalls := n\<rparr>))"
proof (cases "\<not> NDEBUG E \<and> \<not> isSlave s \<and> isMaster s")
  case True
  with assms have "list_all (\<lambda>r. math_equals E (ms_receive E r) dt) (syncRanks s)"
    by (simp add: syncAgrees_def)
  then have "list_all (\<lambda>r. math_equals E (ms_receive E r) dt)
               (map int [1..<nat (accessorCommunicatorSize s)])"
    by (simp add: syncRanks_def)
  from syncLoop_ok[OF this] True show ?thesis
    by (simp add: syncTimestep_def PRECICE_ASSERT_def syncEvents_def syncRanks_def)
next
  case False
  then show ?thesis
    by (auto simp: syncTimestep_def PRECICE_ASSERT_def syncEvents_def)
qed

lemma sync_mismatch:
  assumes "\<not> NDEBUG E" "isMaster s" "\<not> isSlave s"
    and "\<not> list_all (\<lambda>r. math_equals E (ms_receive E r) dt) (syncRanks s)"
  shows "(if \<not> NDEBUG E \<and> (isMaster (s\<lparr>numberAdvanceCalls := n\<rparr>) \<or> isSlave (s\<lparr>numberAdvanceCalls := n\<rparr>))
          then syncTimestep E dt (s\<lparr>numberAdvanceCalls := n\<rparr>)
          else (Inr (), s\<lparr>numberAdvanceCalls := n\<rparr>))
         = (Inl ambiguousTimestep,
            emit (map (\<lambda>r. MS_receive (ms_receive E r) r)
                    (takeWhile (\<lambda>r. math_equals E (ms_receive E r) dt) (syncRanks s)
                     @ [hd (dropWhile (\<lambda>r. math_equals E (ms_receive E r) dt) (syncRanks s))]))
              (s\<lparr>numberAdvanceCalls := n\<rparr>))"
proof -
  from assms(4) have "\<not> list_all (\<lambda>r. math_equals E (ms_receive E r) dt)
               (map int [1..<nat (accessorCommunicatorSize s)])"
    by (simp add: syncRanks_def)
  from syncLoop_mismatch[OF this] assms(1-3) show ?thesis
    by (simp add: syncTimestep_def PRECICE_ASSERT_def syncRanks_def ambiguousTimestep_def)
qed

text \<open>\<open>advance\<close> when the synchronisation fails: the scheme has not been touched.\<close>

lemma advance_mismatch:
  assumes cs: "couplingScheme s = Some c"
    and init: "cs_isInitialized V c" and ongoing: "cs_isCouplingOngoing V c"
    and m: "\<not> NDEBUG E" "isMaster s" "\<not> isSlave s"
       "\<not> list_all (\<lambda>r. math_equals E (ms_receive E r) dt) (syncRanks s)"
  shows "advance E V dt s =
           (Inl ambiguousTimestep,
            emit (map (\<lambda>r. MS_receive (ms_receive E r) r)
                    (takeWhile (\<lambda>r. math_equals E (ms_receive E r) dt) (syncRanks s)
                     @ [hd (dropWhile (\<lambda>r. math_equals E (ms_receive E r) dt) (syncRanks s))]))
              (s\<lparr>numberAdvanceCalls := numberAdvanceCalls s + 1\<rparr>))"
  unfolding advance_def Let_def sync_mismatch[OF m]
  by (simp add: cs init ongoing)

lemma isDispatchEvent_simps [simp]:
  "isDispatchEvent (Mapping_computeMapping m)" "isDispatchEvent (Mapping_map m i j)"
  "isDispatchEvent (Mapping_clear m)" "isDispatchEvent (Data_zeroValues i)"
  by (simp_all add: isDispatchEvent_def)

lemma isExportEvent_simps [simp]:
  "isExportEvent (Export_doExport n l k)" "isExportEvent (Cpl_requireAction a)"
  "isExportEvent (WatchPoint_exportPointData w t)"
  by (simp_all add: isExportEvent_def)

lemma mapEvents_kind: "list_all isDispatchEvent (mapEvents s ds)"
  by (induction ds) (simp_all add: mapEvents_def Let_def split: option.splits)

lemma dispatched_trace:
  assumes "dispatched mcs dcs s s'"
  shows "\<exists>W. trace s' = trace s @ W \<and> list_all isDispatchEvent W"
proof -
  from assms obtain A C where t: "trace s' = trace s @ A @ mapEvents s dcs @ C"
    and A: "\<forall>e\<in>set A. \<exists>m. e = Mapping_computeMapping m \<and> \<not> hasComputedMapping (mappings s m)"
    and C: "\<forall>e\<in>set C. \<exists>m. e = Mapping_clear m"
    unfolding dispatched_def by blast
  have "list_all isDispatchEvent A" using A by (auto simp: list_all_iff)
  moreover have "list_all isDispatchEvent C" using C by (auto simp: list_all_iff)
  ultimately have "list_all isDispatchEvent (A @ mapEvents s dcs @ C)"
    by (simp add: mapEvents_kind)
  with t show ?thesis by blast
qed

lemma exportEvents_kind: "list_all isExportEvent (exportEvents suffix s)"
  by (simp add: exportEvents_def list_all_iff)

subsection \<open>Facts about handleExports\<close>

lemma handleExports_runs:
  fixes s :: "'c SolverInterfaceImpl"
  assumes cs: "couplingScheme s = Some c"
    and iv: "\<forall>x\<in>set (exportContexts (accessor s)). timestepInterval x \<noteq> 0"
  shows "\<exists>s' k X. handleExports V s = (Inr (), s')
           \<and> couplingScheme s' = Some ((cs_requireAction V ''plot-output'' ^^ k) c)
           \<and> trace s' = trace s @ X \<and> list_all isExportEvent X"
proof -
  define I where "I = (\<lambda>t :: 'c SolverInterfaceImpl.
        (\<exists>k. couplingScheme t = Some ((cs_requireAction V ''plot-output'' ^^ k) c))
      \<and> (\<exists>X. trace t = trace s @ X \<and> list_all isExportEvent X))"
  define body where "body = (\<lambda>(context :: ExportContext) (t :: 'c SolverInterfaceImpl).
                        case couplingScheme t of
                          None \<Rightarrow> (Inl nullPointer, t)
                        | Some c' \<Rightarrow>
                            if cs_isCouplingTimestepComplete V c' \<or> everyIteration context
                            then if timestepInterval context \<noteq> - 1
                                 then if timestepInterval context = 0
                                      then (Inl (Undefined, ''division by zero''), t)
                                      else if (cs_getTimesteps V c - 1) smod timestepInterval context = 0
                                      then (let t1 = (if everyIteration context
                                                      then exportMesh (accessorName t @ ''.it''
                                                             @ printInt (numberAdvanceCalls t)) t
                                                      else t);
                                                t2 = exportMesh (accessorName t1 @ ''.dt''
                                                       @ printInt (cs_getTimesteps V c' - 1)) t1
                                            in if triggerSolverPlot context
                                               then (Inr (), emit [Cpl_requireAction ''plot-output'']
                                                       (t2\<lparr>couplingScheme :=
                                                             Some (cs_requireAction V ''plot-output'' c')\<rparr>))
                                               else (Inr (), t2))
                                      else (Inr (), t)
                                 else (Inr (), t)
                            else (Inr (), t))"
  have I0: "I s" using cs by (auto simp: I_def intro: exI[of _ 0])
  have Ie: "\<And>t evs. I t \<Longrightarrow> list_all isExportEvent evs \<Longrightarrow> I (emit evs t)"
    by (auto simp: I_def)
  have Iu: "I (t\<lparr>couplingScheme := Some (cs_requireAction V ''plot-output'' x)\<rparr>)"
    if "I t" "couplingScheme t = Some x" for t x
  proof -
    from that obtain k where k: "x = (cs_requireAction V ''plot-output'' ^^ k) c"
      and X: "\<exists>X. trace t = trace s @ X \<and> list_all isExportEvent X"
      by (auto simp: I_def)
    have "cs_requireAction V ''plot-output'' x = (cs_requireAction V ''plot-output'' ^^ Suc k) c"
      by (simp add: k)
    then show ?thesis using X unfolding I_def by (simp del: funpow.simps) blast
  qed
  have step: "\<exists>t'. body x t = (Inr (), t') \<and> I t'"
    if x: "x \<in> set (exportContexts (accessor s))" and t: "I t" for x t
  proof -
    from t obtain c' where c': "couplingScheme t = Some c'" by (auto simp: I_def)
    from iv x have nz: "timestepInterval x \<noteq> 0" by blast
    define t1 where "t1 = (if everyIteration x
                           then exportMesh (accessorName t @ ''.it'' @ printInt (numberAdvanceCalls t)) t
                           else t)"
    define t2 where "t2 = exportMesh (accessorName t1 @ ''.dt'' @ printInt (cs_getTimesteps V c' - 1)) t1"
    have I1: "I t1" unfolding t1_def using t by (simp add: exportMesh_eq Ie exportEvents_kind)
    have I2: "I t2" unfolding t2_def using I1 by (simp add: exportMesh_eq Ie exportEvents_kind)
    have c2: "couplingScheme t2 = Some c'"
      by (simp add: t2_def t1_def exportMesh_eq c')
    have I3: "I (emit [Cpl_requireAction ''plot-output'']
                  (t2\<lparr>couplingScheme := Some (cs_requireAction V ''plot-output'' c')\<rparr>))"
      by (rule Ie[OF Iu[OF I2 c2]]) simp
    have b: "body x t =
        (if cs_isCouplingTimestepComplete V c' \<or> everyIteration x
         then if timestepInterval x \<noteq> - 1
              then if (cs_getTimesteps V c - 1) smod timestepInterval x = 0
                   then if triggerSolverPlot x
                        then (Inr (), emit [Cpl_requireAction ''plot-output'']
                                (t2\<lparr>couplingScheme := Some (cs_requireAction V ''plot-output'' c')\<rparr>))
                        else (Inr (), t2)
                   else (Inr (), t)
              else (Inr (), t)
         else (Inr (), t))"
      unfolding body_def Let_def t2_def t1_def by (simp add: c' nz)
    show ?thesis
      unfolding b using t I2 I3 by simp
  qed
  from forEach_ok[where I = I and body = body, OF I0 step]
  obtain s1 where s1: "forEach body (exportContexts (accessor s)) s = (Inr (), s1)" "I s1"
    by blast
  from s1(2) obtain k X where k: "couplingScheme s1 = Some ((cs_requireAction V ''plot-output'' ^^ k) c)"
    and X: "trace s1 = trace s @ X" "list_all isExportEvent X"
    by (auto simp: I_def)
  define c1 where "c1 = (cs_requireAction V ''plot-output'' ^^ k) c"
  have c1: "couplingScheme s1 = Some c1" by (simp add: k c1_def)
  define W where "W = map (\<lambda>i. WatchPoint_exportPointData i (cs_getTime V c1)) [0..<watchPoints (accessor s1)]"
  have Wk: "list_all isExportEvent W" by (simp add: W_def list_all_iff)
  have h: "handleExports V s =
     (case forEach body (exportContexts (accessor s)) s of
                (Inl e, s1) \<Rightarrow> (Inl e, s1)
              | (Inr _, s1) \<Rightarrow>
                  (case couplingScheme s1 of
                     None \<Rightarrow> (Inl nullPointer, s1)
                   | Some c1 \<Rightarrow>
                       if cs_isCouplingTimestepComplete V c1
                       then (Inr (), emit (map (\<lambda>i. WatchPoint_exportPointData i (cs_getTime V c1))
                                            [0..<watchPoints (accessor s1)]) s1)
                       else (Inr (), s1)))"
    unfolding handleExports_def body_def Let_def by (simp add: cs)
  have r: "handleExports V s =
     (Inr (), if cs_isCouplingTimestepComplete V c1 then emit W s1 else s1)"
    unfolding h s1(1) by (simp add: c1 W_def)
  show ?thesis
  proof (cases "cs_isCouplingTimestepComplete V c1")
    case True
    show ?thesis
      by (rule exI[of _ "emit W s1"], rule exI[of _ k], rule exI[of _ "X @ W"])
         (simp add: r True c1 X Wk c1_def[symmetric])
  next
    case False
    show ?thesis
      by (rule exI[of _ s1], rule exI[of _ k], rule exI[of _ X])
         (simp add: r False c1 X c1_def[symmetric])
  qed
qed

subsection \<open>The steps of advance\<close>

text \<open>The value of \<open>advance\<close> when each of its steps returns.\<close>

lemma advance_eq:
  assumes "couplingScheme s = Some c" "cs_isInitialized V c" "cs_isCouplingOngoing V c"
    and "(if \<not> NDEBUG E \<and> (isMaster (s\<lparr>numberAdvanceCalls := numberAdvanceCalls s + 1\<rparr>)
                            \<or> isSlave (s\<lparr>numberAdvanceCalls := numberAdvanceCalls s + 1\<rparr>))
          then syncTimestep E dt (s\<lparr>numberAdvanceCalls := numberAdvanceCalls s + 1\<rparr>)
          else (Inr (), s\<lparr>numberAdvanceCalls := numberAdvanceCalls s + 1\<rparr>)) = (Inr (), s1)"
    and "cs_addComputedTime V dt c = Inr c1"
    and "mapWrittenData (emit [Cpl_addComputedTime dt] (s1\<lparr>couplingScheme := Some c1\<rparr>)) = (Inr (), s3)"
    and "cs_advance V c1 = Inr c2"
    and "(if cs_hasDataBeenExchanged V c2
          then mapReadData
                 (performDataActions
                    ({ALWAYS_POST} \<union> (if cs_hasDataBeenExchanged V c2 then {ON_EXCHANGE_POST} else {})
                       \<union> (if cs_isCouplingTimestepComplete V c2 then {ON_TIMESTEP_COMPLETE_POST} else {}))
                    (cs_getTime V c1) dt
                    ((if cs_hasTimestepLength V c1 then cs_getTimestepLength V c1 else dt)
                       - cs_getThisTimestepRemainder V c1)
                    (if cs_hasTimestepLength V c1 then cs_getTimestepLength V c1 else dt)
                    (emit [Cpl_advance]
                       ((performDataActions
                           ({ALWAYS_PRIOR} \<union> (if cs_willDataBeExchanged V 0 c1 then {ON_EXCHANGE_PRIOR} else {}))
                           (cs_getTime V c1) dt
                           ((if cs_hasTimestepLength V c1 then cs_getTimestepLength V c1 else dt)
                              - cs_getThisTimestepRemainder V c1)
                           (if cs_hasTimestepLength V c1 then cs_getTimestepLength V c1 else dt)
                           s3)\<lparr>couplingScheme := Some c2\<rparr>)))
          else (Inr (),
                performDataActions
                    ({ALWAYS_POST} \<union> (if cs_hasDataBeenExchanged V c2 then {ON_EXCHANGE_POST} else {})
                       \<union> (if cs_isCouplingTimestepComplete V c2 then {ON_TIMESTEP_COMPLETE_POST} else {}))
                    (cs_getTime V c1) dt
                    ((if cs_hasTimestepLength V c1 then cs_getTimestepLength V c1 else dt)
                       - cs_getThisTimestepRemainder V c1)
                    (if cs_hasTimestepLength V c1 then cs_getTimestepLength V c1 else dt)
                    (emit [Cpl_advance]
                       ((performDataActions
                           ({ALWAYS_PRIOR} \<union> (if cs_willDataBeExchanged V 0 c1 then {ON_EXCHANGE_PRIOR} else {}))
                           (cs_getTime V c1) dt
                           ((if cs_hasTimestepLength V c1 then cs_getTimestepLength V c1 else dt)
                              - cs_getThisTimestepRemainder V c1)
                           (if cs_hasTimestepLength V c1 then cs_getTimestepLength V c1 else dt)
                           s3)\<lparr>couplingScheme := Some c2\<rparr>)))) = (Inr (), s7)"
    and "handleExports V s7 = (Inr (), s8)"
    and "couplingScheme (lockAll s8) = Some c3"
  shows "advance E V dt s = (Inr (cs_getNextTimestepMaxLength V c3), lockAll s8)"
  using assms unfolding advance_def Let_def by simp

lemma advance_runs:
  fixes s :: "'c SolverInterfaceImpl"
  assumes cs: "couplingScheme s = Some c"
    and init: "cs_isInitialized V c" and ongoing: "cs_isCouplingOngoing V c"
    and sync: "syncAgrees E dt s"
    and add: "cs_addComputedTime V dt c = Inr c1"
    and adv: "cs_advance V c1 = Inr c2"
    and wfW: "\<forall>a\<in>set (writeMappingContexts (accessor s)). mapping (mappingContexts s a) \<noteq> None"
    and wfR: "\<forall>a\<in>set (readMappingContexts (accessor s)). mapping (mappingContexts s a) \<noteq> None"
    and iv: "\<forall>x\<in>set (exportContexts (accessor s)). timestepInterval x \<noteq> 0"
    and len: "len = (if cs_hasTimestepLength V c1 then cs_getTimestepLength V c1 else dt)"
    and A1: "A1 = actionEvents
                    ({ALWAYS_PRIOR} \<union> (if cs_willDataBeExchanged V 0 c1 then {ON_EXCHANGE_PRIOR} else {}))
                    (cs_getTime V c1) dt (len - cs_getThisTimestepRemainder V c1) len
                    (actions (accessor s))"
    and A2: "A2 = actionEvents
                    ({ALWAYS_POST} \<union> (if cs_hasDataBeenExchanged V c2 then {ON_EXCHANGE_POST} else {})
                       \<union> (if cs_isCouplingTimestepComplete V c2 then {ON_TIMESTEP_COMPLETE_POST} else {}))
                    (cs_getTime V c1) dt (len - cs_getThisTimestepRemainder V c1) len
                    (actions (accessor s))"
  shows "\<exists>s3 s7 s8 c3 W R X.
      mapWrittenData (emit (syncEvents E dt s @ [Cpl_addComputedTime dt])
                        (s\<lparr>numberAdvanceCalls := numberAdvanceCalls s + 1,
                           couplingScheme := Some c1\<rparr>)) = (Inr (), s3)
    \<and> trace s3 = trace s @ syncEvents E dt s @ [Cpl_addComputedTime dt] @ W
    \<and> list_all isDispatchEvent W
    \<and> (if cs_hasDataBeenExchanged V c2
        then mapReadData (emit (A1 @ [Cpl_advance] @ A2) (s3\<lparr>couplingScheme := Some c2\<rparr>))
        else (Inr (), emit (A1 @ [Cpl_advance] @ A2) (s3\<lparr>couplingScheme := Some c2\<rparr>)))
         = (Inr (), s7)
    \<and> trace s7 = trace s3 @ A1 @ [Cpl_advance] @ A2 @ R
    \<and> list_all isDispatchEvent R
    \<and> (cs_hasDataBeenExchanged V c2 \<or> R = [])
    \<and> handleExports V s7 = (Inr (), s8)
    \<and> trace s8 = trace s7 @ X
    \<and> list_all isExportEvent X
    \<and> couplingScheme s8 = Some c3
    \<and> (\<exists>k. c3 = (cs_requireAction V ''plot-output'' ^^ k) c2)
    \<and> advance E V dt s = (Inr (cs_getNextTimestepMaxLength V c3), lockAll s8)
    \<and> trace (lockAll s8) = trace s @ syncEvents E dt s @ [Cpl_addComputedTime dt] @ W
                               @ A1 @ [Cpl_advance] @ A2 @ R @ X @ [MeshLock_lockAll]"
proof -
  define s0 where "s0 = s\<lparr>numberAdvanceCalls := numberAdvanceCalls s + 1\<rparr>"
  define s1 where "s1 = emit (syncEvents E dt s) s0"
  define s2 where "s2 = emit [Cpl_addComputedTime dt] (s1\<lparr>couplingScheme := Some c1\<rparr>)"
  have s2_eq: "s2 = emit (syncEvents E dt s @ [Cpl_addComputedTime dt])
                        (s\<lparr>numberAdvanceCalls := numberAdvanceCalls s + 1,
                           couplingScheme := Some c1\<rparr>)"
    by (simp add: s2_def s1_def s0_def)
  have sy: "(if \<not> NDEBUG E \<and> (isMaster (s\<lparr>numberAdvanceCalls := numberAdvanceCalls s + 1\<rparr>)
                            \<or> isSlave (s\<lparr>numberAdvanceCalls := numberAdvanceCalls s + 1\<rparr>))
          then syncTimestep E dt (s\<lparr>numberAdvanceCalls := numberAdvanceCalls s + 1\<rparr>)
          else (Inr (), s\<lparr>numberAdvanceCalls := numberAdvanceCalls s + 1\<rparr>)) = (Inr (), s1)"
    unfolding s1_def s0_def by (rule sync_ok[OF sync])
  have f2: "accessor s2 = accessor s" "mappingContexts s2 = mappingContexts s"
    "trace s2 = trace s @ syncEvents E dt s @ [Cpl_addComputedTime dt]"
    by (simp_all add: s2_eq)
  have "\<forall>a\<in>set (writeMappingContexts (accessor s2)). mapping (mappingContexts s2 a) \<noteq> None"
    using wfW by (simp add: f2)
  from mapWrittenData_dispatched[OF this] obtain s3 where s3:
    "mapWrittenData s2 = (Inr (), s3)"
    "dispatched (writeMappingContexts (accessor s2)) (writeDataContexts (accessor s2)) s2 s3"
    by blast
  from dispatched_trace[OF s3(2)] obtain W where W:
    "trace s3 = trace s2 @ W" "list_all isDispatchEvent W" by blast
  note f3 = dispatched_sel[OF s3(2)]
  define s6 where "s6 = emit (A1 @ [Cpl_advance] @ A2) (s3\<lparr>couplingScheme := Some c2\<rparr>)"
  have s6_eq: "performDataActions
                    ({ALWAYS_POST} \<union> (if cs_hasDataBeenExchanged V c2 then {ON_EXCHANGE_POST} else {})
                       \<union> (if cs_isCouplingTimestepComplete V c2 then {ON_TIMESTEP_COMPLETE_POST} else {}))
                    (cs_getTime V c1) dt
                    ((if cs_hasTimestepLength V c1 then cs_getTimestepLength V c1 else dt)
                       - cs_getThisTimestepRemainder V c1)
                    (if cs_hasTimestepLength V c1 then cs_getTimestepLength V c1 else dt)
                    (emit [Cpl_advance]
                       ((performDataActions
                           ({ALWAYS_PRIOR} \<union> (if cs_willDataBeExchanged V 0 c1 then {ON_EXCHANGE_PRIOR} else {}))
                           (cs_getTime V c1) dt
                           ((if cs_hasTimestepLength V c1 then cs_getTimestepLength V c1 else dt)
                              - cs_getThisTimestepRemainder V c1)
                           (if cs_hasTimestepLength V c1 then cs_getTimestepLength V c1 else dt)
                           s3)\<lparr>couplingScheme := Some c2\<rparr>)) = s6"
    unfolding s6_def A1 A2 len performDataActions_eq
    by (simp add: f3(1) f2(1))
  have f6: "accessor s6 = accessor s" "couplingScheme s6 = Some c2"
    "\<And>a. mapping (mappingContexts s6 a) = mapping (mappingContexts s a)"
    "trace s6 = trace s3 @ A1 @ [Cpl_advance] @ A2"
    by (simp_all add: s6_def f3 f2)
  have "\<exists>s7 R. (if cs_hasDataBeenExchanged V c2 then mapReadData s6 else (Inr (), s6)) = (Inr (), s7)
          \<and> trace s7 = trace s6 @ R \<and> list_all isDispatchEvent R
          \<and> (cs_hasDataBeenExchanged V c2 \<or> R = [])
          \<and> accessor s7 = accessor s \<and> couplingScheme s7 = Some c2"
  proof (cases "cs_hasDataBeenExchanged V c2")
    case False
    then show ?thesis by (simp add: f6)
  next
    case True
    have "\<forall>a\<in>set (readMappingContexts (accessor s6)). mapping (mappingContexts s6 a) \<noteq> None"
      using wfR by (simp add: f6)
    from mapReadData_dispatched[OF this] obtain s7 where s7:
      "mapReadData s6 = (Inr (), s7)"
      "dispatched (readMappingContexts (accessor s6)) (readDataContexts (accessor s6)) s6 s7"
      by blast
    from dispatched_trace[OF s7(2)] obtain R where R:
      "trace s7 = trace s6 @ R" "list_all isDispatchEvent R" by blast
    show ?thesis
      using True s7(1) R dispatched_sel(1,2)[OF s7(2)] by (simp add: f6)
  qed
  then obtain s7 R where s7:
    "(if cs_hasDataBeenExchanged V c2 then mapReadData s6 else (Inr (), s6)) = (Inr (), s7)"
    "trace s7 = trace s6 @ R" "list_all isDispatchEvent R"
    "cs_hasDataBeenExchanged V c2 \<or> R = []"
    "accessor s7 = accessor s" "couplingScheme s7 = Some c2"
    by blast
  have "\<forall>x\<in>set (exportContexts (accessor s7)). timestepInterval x \<noteq> 0"
    using iv by (simp add: s7(5))
  from handleExports_runs[OF s7(6) this, of V] obtain s8 k X where s8':
    "handleExports V s7 = (Inr (), s8)"
    "couplingScheme s8 = Some ((cs_requireAction V ''plot-output'' ^^ k) c2)"
    "trace s8 = trace s7 @ X" "list_all isExportEvent X"
    by blast
  define c3 where "c3 = (cs_requireAction V ''plot-output'' ^^ k) c2"
  have s8: "handleExports V s7 = (Inr (), s8)" "couplingScheme s8 = Some c3"
    "trace s8 = trace s7 @ X" "list_all isExportEvent X"
    "\<exists>k. c3 = (cs_requireAction V ''plot-output'' ^^ k) c2"
    using s8' by (auto simp: c3_def)
  have l: "couplingScheme (lockAll s8) = Some c3" by (simp add: s8(2))
  have r: "advance E V dt s = (Inr (cs_getNextTimestepMaxLength V c3), lockAll s8)"
    by (rule advance_eq[OF cs init ongoing sy add s3(1)[unfolded s2_def] adv
                           s7(1)[folded s6_eq] s8(1) l])
  show ?thesis
    apply (rule exI[of _ s3], rule exI[of _ s7], rule exI[of _ s8], rule exI[of _ c3],
           rule exI[of _ W], rule exI[of _ R], rule exI[of _ X])
    apply (intro conjI)
    subgoal using s3(1) unfolding s2_eq .
    subgoal using W(1) by (simp add: f2)
    subgoal by (rule W(2))
    subgoal using s7(1) unfolding s6_def .
    subgoal using s7(2) by (simp add: f6)
    subgoal by (rule s7(3))
    subgoal by (rule s7(4))
    subgoal by (rule s8(1))
    subgoal by (rule s8(3))
    subgoal by (rule s8(4))
    subgoal by (rule s8(2))
    subgoal by (rule s8(5))
    subgoal by (rule r)
    subgoal by (simp add: s8(3) s7(2) f6(4) W(1) f2(3))
    done
qed

lemma demo_requireAction: "(cs_requireAction demoV a ^^ k) c = c"
  by (induction k) (simp_all add: demoV_def)

lemma demo_advance_facts:
  "cs_isCouplingOngoing demoV demoStarted"
  "cs_addComputedTime demoV 1 demoStarted = Inr demoAdded"
  "cs_advance demoV demoAdded = Inr demoAdvanced"
  "\<forall>a\<in>set (writeMappingContexts (accessor demoRunning)). mapping (mappingContexts demoRunning a) \<noteq> None"
  "\<forall>a\<in>set (readMappingContexts (accessor demoRunning)). mapping (mappingContexts demoRunning a) \<noteq> None"
  "\<forall>x\<in>set (exportContexts (accessor demoRunning)). timestepInterval x \<noteq> 0"
  "syncRanks demoRunning = [1]"
  "cs_getNextTimestepMaxLength demoV demoAdvanced = 1"
  "cs_hasDataBeenExchanged demoV demoAdvanced"
  "actions (accessor demoRunning) = [ALWAYS_PRIOR, ON_EXCHANGE_POST, ON_TIMESTEP_COMPLETE_POST]"
  "stepsReturn demoV 1 demoRunning"
  by (simp_all add: demoRunning_def demo_defs demoV_def demoStarted_def demoAdded_def
        demoAdvanced_def syncRanks_def stepsReturn_def upt_rec)

lemma demo_env_facts:
  "\<not> NDEBUG demoE" "NDEBUG demoRelease"
  "ms_receive demoE r = 1" "math_equals demoE 1 1" "\<not> math_equals demoE 1 2"
  "ms_receive demoRelease r = 2" "\<not> math_equals demoRelease 2 1"
  by (simp_all add: demoE_def demoRelease_def)

subsection \<open>The steps of initialize\<close>

lemma allocateDataValues_name [simp]:
  "accessorName (allocateDataValues meshID s) = accessorName s"
proof -
  from allocateDataValues_frame[of meshID s] obtain D where
    e: "allocateDataValues meshID s = s\<lparr>datas := D\<rparr>" by blast
  show ?thesis by (simp add: e)
qed









subsection \<open>finalize with a plot request, and the lock after advance\<close>





subsection \<open>The read-side mapping dispatch\<close>

text \<open>
  Claim C3, as amended.  Whenever every read mapping context holds a mapping object (the
  first loop dereferences the pointer unasked), a run of \<open>mapReadData\<close> returns normally and
  its calls are, in this order:
  (a) \<open>computeMapping\<close>, on mappings that were not computed and on every not yet computed
  mapping of a read mapping context whose timing matches;
  (b) for each read data context that carries a mapping, whose timing matches and whose flag
  \<open>hasMappedData\<close> is unset, the zeroing of the target buffer followed by
  \<open>map(fromData, toData)\<close>, in the order of the data contexts;
  (c) \<open>clear\<close>, on every read mapping context whose timing is not \<open>INITIAL\<close>, after which that
  mapping counts as not computed; and the flag \<open>hasMappedData\<close> of every read mapping
  context is unset.
  The dispatch marks nothing: a flag \<open>hasMappedData\<close> that is set afterwards was set before.
  (Only \<open>mapReadDataTo\<close> and \<open>mapWriteDataFrom\<close> set the flag.)
\<close>

theorem mapReadData_dispatch:
  assumes "list_all (\<lambda>a. mapping (mappingContexts s a) \<noteq> None) (readMappingContexts (accessor s))"
  shows "\<exists>s' A C.
      mapReadData s = (Inr (), s')
    \<and> trace s' = trace s @ A @ mapEvents s (readDataContexts (accessor s)) @ C
    \<and> (\<forall>e\<in>set A. \<exists>m. e = Mapping_computeMapping m \<and> \<not> hasComputedMapping (mappings s m))
    \<and> (\<forall>a\<in>set (readMappingContexts (accessor s)). \<forall>m.
          mapping (mappingContexts s a) = Some m \<and> timingMatches (mappingContexts s a)
            \<and> \<not> hasComputedMapping (mappings s m)
          \<longrightarrow> Mapping_computeMapping m \<in> set A)
    \<and> (\<forall>e\<in>set C. \<exists>m. e = Mapping_clear m)
    \<and> (\<forall>a\<in>set (readMappingContexts (accessor s)).
          \<not> hasMappedData (mappingContexts s' a)
          \<and> (timing (mappingContexts s a) \<noteq> INITIAL \<longrightarrow>
               (\<exists>m. mapping (mappingContexts s a) = Some m \<and> Mapping_clear m \<in> set C
                    \<and> \<not> hasComputedMapping (mappings s' m))))
    \<and> (\<forall>a. hasMappedData (mappingContexts s' a) \<longrightarrow> hasMappedData (mappingContexts s a))"
proof -
  from assms
  have wf: "\<forall>a\<in>set (readMappingContexts (accessor s)). mapping (mappingContexts s a) \<noteq> None"
    by (simp add: list_all_iff)
  from mapReadData_dispatched[OF wf] obtain s' where s':
    "mapReadData s = (Inr (), s')"
    "dispatched (readMappingContexts (accessor s)) (readDataContexts (accessor s)) s s'"
    by blast
  from s'(2) obtain A C where d:
    "trace s' = trace s @ A @ mapEvents s (readDataContexts (accessor s)) @ C"
    "\<forall>e\<in>set A. \<exists>m. e = Mapping_computeMapping m \<and> \<not> hasComputedMapping (mappings s m)"
    "\<forall>a\<in>set (readMappingContexts (accessor s)). \<forall>m.
          mapping (mappingContexts s a) = Some m \<and> timingMatches (mappingContexts s a)
            \<and> \<not> hasComputedMapping (mappings s m)
          \<longrightarrow> Mapping_computeMapping m \<in> set A"
    "\<forall>e\<in>set C. \<exists>m. e = Mapping_clear m"
    "\<forall>a\<in>set (readMappingContexts (accessor s)).
          \<not> hasMappedData (mappingContexts s' a)
          \<and> (timing (mappingContexts s a) \<noteq> INITIAL \<longrightarrow>
               (\<exists>m. mapping (mappingContexts s a) = Some m \<and> Mapping_clear m \<in> set C
                    \<and> \<not> hasComputedMapping (mappings s' m)))"
    "\<forall>a. hasMappedData (mappingContexts s' a) \<longrightarrow> hasMappedData (mappingContexts s a)"
    unfolding dispatched_def by blast
  show ?thesis
    using s'(1) d by (intro exI[of _ s'] exI[of _ A] exI[of _ C]) simp
qed

text \<open>
  The theorem at the example session: its one read mapping context (address 1) holds the
  mapping object 1.
\<close>

theorem mapReadData_dispatch_witness:
  "list_all (\<lambda>a. mapping (mappingContexts demo a) \<noteq> None) (readMappingContexts (accessor demo))
   \<and> (\<exists>s' A C.
      mapReadData demo = (Inr (), s')
    \<and> trace s' = trace demo @ A @ mapEvents demo (readDataContexts (accessor demo)) @ C
    \<and> (\<forall>e\<in>set A. \<exists>m. e = Mapping_computeMapping m \<and> \<not> hasComputedMapping (mappings demo m))
    \<and> (\<forall>a\<in>set (readMappingContexts (accessor demo)). \<forall>m.
          mapping (mappingContexts demo a) = Some m \<and> timingMatches (mappingContexts demo a)
            \<and> \<not> hasComputedMapping (mappings demo m)
          \<longrightarrow> Mapping_computeMapping m \<in> set A)
    \<and> (\<forall>e\<in>set C. \<exists>m. e = Mapping_clear m)
    \<and> (\<forall>a\<in>set (readMappingContexts (accessor demo)).
          \<not> hasMappedData (mappingContexts s' a)
          \<and> (timing (mappingContexts demo a) \<noteq> INITIAL \<longrightarrow>
               (\<exists>m. mapping (mappingContexts demo a) = Some m \<and> Mapping_clear m \<in> set C
                    \<and> \<not> hasComputedMapping (mappings s' m))))
    \<and> (\<forall>a. hasMappedData (mappingContexts s' a) \<longrightarrow> hasMappedData (mappingContexts demo a)))"
proof -
  have h: "list_all (\<lambda>a. mapping (mappingContexts demo a) \<noteq> None)
             (readMappingContexts (accessor demo))"
    by (simp add: demo_defs)
  show ?thesis
    by (rule conjI[OF h mapReadData_dispatch[OF h]])
qed

text \<open>
  Claim C3 as stated fails in its part (b): the dispatch does not mark \<open>hasMappedData\<close>.  In
  the example session a run of \<open>mapReadData\<close> returns with the flag unset, in the mapping
  context of the participant's list (address 1) and in the one of the data context (address
  5), and a second run right after the first applies the same mapping again.
\<close>

theorem mapReadData_marks_counterexample:
  "fst (mapReadData demo) = Inr ()
   \<and> \<not> hasMappedData (mappingContexts (snd (mapReadData demo)) 1)
   \<and> \<not> hasMappedData (mappingContexts (snd (mapReadData demo)) 5)
   \<and> trace (snd (mapReadData demo))
       = [Mapping_computeMapping 1, Data_zeroValues 1, Mapping_map 1 3 1, Mapping_clear 1]
   \<and> trace (snd (mapReadData (snd (mapReadData demo))))
       = [Mapping_computeMapping 1, Data_zeroValues 1, Mapping_map 1 3 1, Mapping_clear 1,
          Mapping_computeMapping 1, Data_zeroValues 1, Mapping_map 1 3 1, Mapping_clear 1]"
  by (simp add: demo_defs dispatch_defs)

subsection \<open>Resetting a mesh\<close>

text \<open>
  Claim C10.  For a valid mesh ID (the participant has a context for the mesh), \<open>resetMesh\<close>
  fails when the mesh has neither a from-mapping nor a to-mapping, and fails when the
  timings of its from- and to-mapping contexts are both \<open>INITIAL\<close>; in every other case it
  succeeds.  When it succeeds it unlocks this mesh and no other, clears the geometry of this
  mesh and of no other, and changes nothing else of the session.
\<close>

theorem resetMesh_contract:
  assumes "meshContext s meshID = Some context"
  shows
    "(mapping (mappingContexts s (fromMappingContext context)) = None
        \<and> mapping (mappingContexts s (toMappingContext context)) = None
      \<longrightarrow> (\<exists>msg. resetMesh meshID s = (Inl (UsageError, msg), s)))
   \<and> (timing (mappingContexts s (fromMappingContext context)) = INITIAL
        \<and> timing (mappingContexts s (toMappingContext context)) = INITIAL
      \<longrightarrow> (\<exists>msg. resetMesh meshID s = (Inl (UsageError, msg), s)))
   \<and> (\<not> (mapping (mappingContexts s (fromMappingContext context)) = None
            \<and> mapping (mappingContexts s (toMappingContext context)) = None)
        \<and> \<not> (timing (mappingContexts s (fromMappingContext context)) = INITIAL
            \<and> timing (mappingContexts s (toMappingContext context)) = INITIAL)
      \<longrightarrow> (\<exists>s'. resetMesh meshID s = (Inr (), s')))
   \<and> (\<forall>s'. resetMesh meshID s = (Inr (), s') \<longrightarrow>
          meshLock s' = (meshLock s)(meshID := False)
        \<and> meshes s' = (meshes s)(meshID :=
              (meshes s meshID)\<lparr>vertices := [], edges := [], triangles := [], quads := []\<rparr>)
        \<and> s' = s\<lparr>meshLock := meshLock s', meshes := meshes s'\<rparr>)"
  unfolding resetMesh_eq[OF assms]
  by (auto simp: clearMesh_def unlock_def)

text \<open>
  The theorem at the example session: \<open>resetMesh\<close> succeeds on the mesh \<open>Fluid\<close> (ID 0), whose
  to-mapping has the timing \<open>ON_ADVANCE\<close>, and fails on the mesh \<open>Solid\<close> (ID 1), which has no
  mapping.
\<close>

theorem resetMesh_contract_witness:
  "meshContext demo 0 = Some \<lparr> mesh = 0, provideMesh = True, receiveMeshFrom = [],
                               fromMappingContext = 2, toMappingContext = 3 \<rparr>
   \<and> (\<exists>s'. resetMesh 0 demo = (Inr (), s')
          \<and> meshLock s' = (meshLock demo)(0 := False)
          \<and> meshes s' = (meshes demo)(0 :=
                (meshes demo 0)\<lparr>vertices := [], edges := [], triangles := [], quads := []\<rparr>))
   \<and> meshContext demo 1 = Some \<lparr> mesh = 1, provideMesh = False, receiveMeshFrom = ''SolverTwo'',
                                 fromMappingContext = 6, toMappingContext = 7 \<rparr>
   \<and> (\<exists>msg. resetMesh 1 demo = (Inl (UsageError, msg), demo))"
proof -
  let ?c0 = "\<lparr> mesh = 0, provideMesh = True, receiveMeshFrom = [],
               fromMappingContext = 2, toMappingContext = 3 \<rparr>"
  let ?c1 = "\<lparr> mesh = 1, provideMesh = False, receiveMeshFrom = ''SolverTwo'',
               fromMappingContext = 6, toMappingContext = 7 \<rparr>"
  have h0: "meshContext demo 0 = Some ?c0"
    by (simp add: meshContext_def demo_defs)
  have p0: "\<not> (mapping (mappingContexts demo (fromMappingContext ?c0)) = None
              \<and> mapping (mappingContexts demo (toMappingContext ?c0)) = None)
          \<and> \<not> (timing (mappingContexts demo (fromMappingContext ?c0)) = INITIAL
              \<and> timing (mappingContexts demo (toMappingContext ?c0)) = INITIAL)"
    by (simp add: demo_defs)
  have r0: "\<exists>s'. resetMesh 0 demo = (Inr (), s')
          \<and> meshLock s' = (meshLock demo)(0 := False)
          \<and> meshes s' = (meshes demo)(0 :=
                (meshes demo 0)\<lparr>vertices := [], edges := [], triangles := [], quads := []\<rparr>)"
    using resetMesh_contract[OF h0] p0 by blast
  have h1: "meshContext demo 1 = Some ?c1"
    by (simp add: meshContext_def demo_defs)
  have p1: "mapping (mappingContexts demo (fromMappingContext ?c1)) = None
          \<and> mapping (mappingContexts demo (toMappingContext ?c1)) = None"
    by (simp add: demo_defs)
  have r1: "\<exists>msg. resetMesh 1 demo = (Inl (UsageError, msg), demo)"
    using resetMesh_contract[OF h1] p1 by blast
  show ?thesis using h0 r0 h1 r1 by blast
qed

subsection \<open>The mesh lock\<close>



subsection \<open>Block operations of size zero\<close>

text \<open>
  Claim C9.  For a valid data ID, each of the four block operations called with size 0
  returns normally and changes nothing: the session state, and with it every data buffer,
  is the one before the call, and the caller's output is untouched.  The test whether the
  participant writes (reads) the data comes after the return for size 0: a call with a size
  other than 0 on data the participant does not write (read) fails with a \<open>UsageError\<close>,
  while the call with size 0 succeeds.
\<close>

theorem block_size_zero_returns:
  assumes "dataContexts (accessor s) dataID \<noteq> None"
  shows
    "writeBlockVectorData E dataID 0 valueIndices vals s = (Inr (), s)
   \<and> writeBlockScalarData E dataID 0 valueIndices vals s = (Inr (), s)
   \<and> readBlockVectorData E dataID 0 valueIndices out s = (Inr (), out)
   \<and> readBlockScalarData dataID 0 valueIndices out s = (Inr (), out)
   \<and> (size' \<noteq> 0 \<and> \<not> isDataWrite s dataID \<longrightarrow>
        (\<exists>msg. writeBlockVectorData E dataID size' valueIndices vals s = (Inl (UsageError, msg), s))
      \<and> (\<exists>msg. writeBlockScalarData E dataID size' valueIndices vals s = (Inl (UsageError, msg), s)))
   \<and> (size' \<noteq> 0 \<and> \<not> isDataRead s dataID \<longrightarrow>
        (\<exists>msg. readBlockVectorData E dataID size' valueIndices out s = (Inl (UsageError, msg), out))
      \<and> (\<exists>msg. readBlockScalarData dataID size' valueIndices out s = (Inl (UsageError, msg), out)))"
proof (intro conjI impI)
  show "writeBlockVectorData E dataID 0 valueIndices vals s = (Inr (), s)"
    "writeBlockScalarData E dataID 0 valueIndices vals s = (Inr (), s)"
    "readBlockVectorData E dataID 0 valueIndices out s = (Inr (), out)"
    "readBlockScalarData dataID 0 valueIndices out s = (Inr (), out)"
    by (rule block_size_zero[OF assms])+
next
  assume a: "size' \<noteq> 0 \<and> \<not> isDataWrite s dataID"
  then have n: "size' \<noteq> 0" and w: "\<not> isDataWrite s dataID" by simp_all
  show "\<exists>msg. writeBlockVectorData E dataID size' valueIndices vals s = (Inl (UsageError, msg), s)"
    by (rule block_not_used(1)[OF assms n w])
  show "\<exists>msg. writeBlockScalarData E dataID size' valueIndices vals s = (Inl (UsageError, msg), s)"
    by (rule block_not_used(2)[OF assms n w])
next
  assume a: "size' \<noteq> 0 \<and> \<not> isDataRead s dataID"
  then have n: "size' \<noteq> 0" and r: "\<not> isDataRead s dataID" by simp_all
  show "\<exists>msg. readBlockVectorData E dataID size' valueIndices out s = (Inl (UsageError, msg), out)"
    by (rule block_not_used(3)[OF assms n r])
  show "\<exists>msg. readBlockScalarData dataID size' valueIndices out s = (Inl (UsageError, msg), out)"
    by (rule block_not_used(4)[OF assms n r])
qed

text \<open>
  The theorem at the example session, for the data 1 (\<open>Pressure\<close>), which the participant
  reads and does not write: the empty block write returns and leaves the session as it
  is, and the block write of size 1 fails.
\<close>

theorem block_size_zero_returns_witness:
  "dataContexts (accessor demo) 1 \<noteq> None
   \<and> (1::int) \<noteq> 0 \<and> \<not> isDataWrite demo 1
   \<and> writeBlockVectorData demoE 1 0 (\<lambda>i. 0) (\<lambda>i. 0) demo = (Inr (), demo)
   \<and> writeBlockScalarData demoE 1 0 (\<lambda>i. 0) (\<lambda>i. 0) demo = (Inr (), demo)
   \<and> (\<exists>msg. writeBlockVectorData demoE 1 1 (\<lambda>i. 0) (\<lambda>i. 0) demo = (Inl (UsageError, msg), demo))
   \<and> (\<exists>msg. writeBlockScalarData demoE 1 1 (\<lambda>i. 0) (\<lambda>i. 0) demo = (Inl (UsageError, msg), demo))"
proof -
  have h: "dataContexts (accessor demo) 1 \<noteq> None" by (simp add: demo_defs)
  have n: "(1::int) \<noteq> 0" by simp
  have w: "\<not> isDataWrite demo 1" by (simp add: isDataWrite_def demo_defs)
  note t = block_size_zero_returns[OF h, of demoE "\<lambda>i. 0" "\<lambda>i. 0" "\<lambda>i. 0" 1]
  have a: "writeBlockVectorData demoE 1 0 (\<lambda>i. 0) (\<lambda>i. 0) demo = (Inr (), demo)"
    by (rule t[THEN conjunct1])
  have b: "writeBlockScalarData demoE 1 0 (\<lambda>i. 0) (\<lambda>i. 0) demo = (Inr (), demo)"
    by (rule t[THEN conjunct2, THEN conjunct1])
  note f = t[THEN conjunct2, THEN conjunct2, THEN conjunct2, THEN conjunct2, THEN conjunct1,
             rule_format, OF conjI[OF n w]]
  show ?thesis by (intro conjI h n w a b f[THEN conjunct1] f[THEN conjunct2])
qed

subsection \<open>Arity of the data operations\<close>

text \<open>
  Claim C7, as amended.  Let \<open>dataID\<close> be a valid data ID with data context \<open>context\<close>; a
  writing function looks at the data set \<open>fromData\<close> of the context, a reading function at
  \<open>toData\<close>.

  Wrong arity.  A vector operation on a data set whose dimensionality is not the dimension
  of the session (so on a data set of dimensionality 1, the session having dimension 2 or
  3), and a scalar operation on a data set whose dimensionality is not 1, fails with a
  \<open>UsageError\<close> and changes nothing, the block operations provided that their size is not 0
  (with size 0 they return normally before the test, see C9).

  Matching arity.  The operation succeeds when moreover the participant writes (reads) the
  data and every index is in range; for the block writes, in a build without \<open>NDEBUG\<close>,
  also the block must not be longer than the buffer, which an assertion demands; for the
  vector reads the two data sets of the context must have the same dimensionality, since
  the index is checked against the one and the buffer belongs to the other.
\<close>

theorem data_arity:
  fixes out :: "nat \<Rightarrow> real"
  assumes c: "dataContexts (accessor s) dataID = Some context"
  shows
   "(data_dimensions (datas s (fromData context)) \<noteq> dimensions s \<longrightarrow>
        (\<exists>msg. writeVectorData dataID valueIndex val s = (Inl (UsageError, msg), s))
      \<and> (size' \<noteq> 0 \<longrightarrow>
           (\<exists>msg. writeBlockVectorData E dataID size' valueIndices vals s = (Inl (UsageError, msg), s))))
  \<and> (data_dimensions (datas s (fromData context)) \<noteq> 1 \<longrightarrow>
        (\<exists>msg. writeScalarData dataID valueIndex v s = (Inl (UsageError, msg), s))
      \<and> (size' \<noteq> 0 \<longrightarrow>
           (\<exists>msg. writeBlockScalarData E dataID size' valueIndices vals s = (Inl (UsageError, msg), s))))
  \<and> (data_dimensions (datas s (toData context)) \<noteq> dimensions s \<longrightarrow>
        (\<exists>msg. readVectorData dataID valueIndex out s = (Inl (UsageError, msg), out))
      \<and> (size' \<noteq> 0 \<longrightarrow>
           (\<exists>msg. readBlockVectorData E dataID size' valueIndices out s = (Inl (UsageError, msg), out))))
  \<and> (data_dimensions (datas s (toData context)) \<noteq> 1 \<longrightarrow>
        (\<exists>msg. readScalarData dataID valueIndex v s = (Inl (UsageError, msg), v))
      \<and> (size' \<noteq> 0 \<longrightarrow>
           (\<exists>msg. readBlockScalarData dataID size' valueIndices out s = (Inl (UsageError, msg), out))))
  \<and> (isDataWrite s dataID
        \<and> data_dimensions (datas s (fromData context)) = dimensions s \<and> 0 < dimensions s \<longrightarrow>
        (0 \<le> valueIndex
           \<and> valueIndex < int (length (data_values (datas s (fromData context)))) sdiv dimensions s
         \<longrightarrow> (\<exists>s'. writeVectorData dataID valueIndex val s = (Inr (), s')))
      \<and> ((\<forall>i < nat size'. 0 \<le> valueIndices i
              \<and> valueIndices i
                  < int (length (data_values (datas s (fromData context)))) sdiv dimensions s)
           \<and> (NDEBUG E
                \<or> size' * dimensions s \<le> int (length (data_values (datas s (fromData context)))))
         \<longrightarrow> (\<exists>s'. writeBlockVectorData E dataID size' valueIndices vals s = (Inr (), s'))))
  \<and> (isDataWrite s dataID \<and> data_dimensions (datas s (fromData context)) = 1 \<longrightarrow>
        (0 \<le> valueIndex
           \<and> valueIndex < int (length (data_values (datas s (fromData context))))
         \<longrightarrow> (\<exists>s'. writeScalarData dataID valueIndex v s = (Inr (), s')))
      \<and> ((\<forall>i < nat size'. 0 \<le> valueIndices i
              \<and> valueIndices i < int (length (data_values (datas s (fromData context)))))
           \<and> (NDEBUG E \<or> size' \<le> int (length (data_values (datas s (fromData context)))))
         \<longrightarrow> (\<exists>s'. writeBlockScalarData E dataID size' valueIndices vals s = (Inr (), s'))))
  \<and> (isDataRead s dataID
        \<and> data_dimensions (datas s (toData context)) = dimensions s \<and> 0 < dimensions s
        \<and> data_dimensions (datas s (fromData context)) = dimensions s \<longrightarrow>
        (0 \<le> valueIndex
           \<and> valueIndex < int (length (data_values (datas s (toData context)))) sdiv dimensions s
         \<longrightarrow> (\<exists>out'. readVectorData dataID valueIndex out s = (Inr (), out')))
      \<and> ((\<forall>i < nat size'. 0 \<le> valueIndices i
              \<and> valueIndices i
                  < int (length (data_values (datas s (toData context)))) sdiv dimensions s)
         \<longrightarrow> (\<exists>out'. readBlockVectorData E dataID size' valueIndices out s = (Inr (), out'))))
  \<and> (isDataRead s dataID \<and> data_dimensions (datas s (toData context)) = 1 \<longrightarrow>
        (0 \<le> valueIndex
           \<and> valueIndex < int (length (data_values (datas s (toData context))))
         \<longrightarrow> readScalarData dataID valueIndex v s
               = (Inr (), data_values (datas s (toData context)) ! nat valueIndex))
      \<and> ((\<forall>i < nat size'. 0 \<le> valueIndices i
              \<and> valueIndices i < int (length (data_values (datas s (toData context)))))
         \<longrightarrow> (\<exists>out'. readBlockScalarData dataID size' valueIndices out s = (Inr (), out'))))"
proof (intro conjI impI)
  assume "data_dimensions (datas s (fromData context)) \<noteq> dimensions s"
  then show "\<exists>msg. writeVectorData dataID valueIndex val s = (Inl (UsageError, msg), s)"
    by (rule write_wrong_arity(1)[OF c])
next
  assume "data_dimensions (datas s (fromData context)) \<noteq> dimensions s" "size' \<noteq> 0"
  then show "\<exists>msg. writeBlockVectorData E dataID size' valueIndices vals s = (Inl (UsageError, msg), s)"
    by (rule write_wrong_arity(2)[OF c])
next
  assume "data_dimensions (datas s (fromData context)) \<noteq> 1"
  then show "\<exists>msg. writeScalarData dataID valueIndex v s = (Inl (UsageError, msg), s)"
    by (rule write_wrong_arity(3)[OF c])
next
  assume "data_dimensions (datas s (fromData context)) \<noteq> 1" "size' \<noteq> 0"
  then show "\<exists>msg. writeBlockScalarData E dataID size' valueIndices vals s = (Inl (UsageError, msg), s)"
    by (rule write_wrong_arity(4)[OF c])
next
  assume "data_dimensions (datas s (toData context)) \<noteq> dimensions s"
  then show "\<exists>msg. readVectorData dataID valueIndex out s = (Inl (UsageError, msg), out)"
    by (rule read_wrong_arity(1)[OF c])
next
  assume "data_dimensions (datas s (toData context)) \<noteq> dimensions s" "size' \<noteq> 0"
  then show "\<exists>msg. readBlockVectorData E dataID size' valueIndices out s = (Inl (UsageError, msg), out)"
    by (rule read_wrong_arity(2)[OF c])
next
  assume "data_dimensions (datas s (toData context)) \<noteq> 1"
  then show "\<exists>msg. readScalarData dataID valueIndex v s = (Inl (UsageError, msg), v)"
    by (rule read_wrong_arity(3)[OF c])
next
  assume "data_dimensions (datas s (toData context)) \<noteq> 1" "size' \<noteq> 0"
  then show "\<exists>msg. readBlockScalarData dataID size' valueIndices out s = (Inl (UsageError, msg), out)"
    by (rule read_wrong_arity(4)[OF c])
next
  assume a: "isDataWrite s dataID
        \<and> data_dimensions (datas s (fromData context)) = dimensions s \<and> 0 < dimensions s"
    and b: "0 \<le> valueIndex
           \<and> valueIndex < int (length (data_values (datas s (fromData context)))) sdiv dimensions s"
  have "\<exists>s'. writeVectorData dataID valueIndex val s = (Inr (), s') \<and> valuesFrame s s'"
    by (rule writeVectorData_ok[OF c]) (use a b in simp_all)
  then show "\<exists>s'. writeVectorData dataID valueIndex val s = (Inr (), s')" by blast
next
  assume a: "isDataWrite s dataID
        \<and> data_dimensions (datas s (fromData context)) = dimensions s \<and> 0 < dimensions s"
    and b: "(\<forall>i < nat size'. 0 \<le> valueIndices i
              \<and> valueIndices i
                  < int (length (data_values (datas s (fromData context)))) sdiv dimensions s)
           \<and> (NDEBUG E
                \<or> size' * dimensions s \<le> int (length (data_values (datas s (fromData context)))))"
  have "\<exists>s'. writeBlockVectorData E dataID size' valueIndices vals s = (Inr (), s')
              \<and> valuesFrame s s'"
    by (rule writeBlockVectorData_ok[OF c]) (use a b in simp_all)
  then show "\<exists>s'. writeBlockVectorData E dataID size' valueIndices vals s = (Inr (), s')" by blast
next
  assume a: "isDataWrite s dataID \<and> data_dimensions (datas s (fromData context)) = 1"
    and b: "0 \<le> valueIndex
           \<and> valueIndex < int (length (data_values (datas s (fromData context))))"
  have "\<exists>s'. writeScalarData dataID valueIndex v s = (Inr (), s') \<and> valuesFrame s s'"
    by (rule writeScalarData_ok[OF c]) (use a b in simp_all)
  then show "\<exists>s'. writeScalarData dataID valueIndex v s = (Inr (), s')" by blast
next
  assume a: "isDataWrite s dataID \<and> data_dimensions (datas s (fromData context)) = 1"
    and b: "(\<forall>i < nat size'. 0 \<le> valueIndices i
              \<and> valueIndices i < int (length (data_values (datas s (fromData context)))))
           \<and> (NDEBUG E \<or> size' \<le> int (length (data_values (datas s (fromData context)))))"
  have "\<exists>s'. writeBlockScalarData E dataID size' valueIndices vals s = (Inr (), s')
              \<and> valuesFrame s s'"
    by (rule writeBlockScalarData_ok[OF c]) (use a b in simp_all)
  then show "\<exists>s'. writeBlockScalarData E dataID size' valueIndices vals s = (Inr (), s')" by blast
next
  assume a: "isDataRead s dataID
        \<and> data_dimensions (datas s (toData context)) = dimensions s \<and> 0 < dimensions s
        \<and> data_dimensions (datas s (fromData context)) = dimensions s"
    and b: "0 \<le> valueIndex
           \<and> valueIndex < int (length (data_values (datas s (toData context)))) sdiv dimensions s"
  show "\<exists>out'. readVectorData dataID valueIndex out s = (Inr (), out')"
    by (rule readVectorData_ok[OF c]) (use a b in simp_all)
next
  assume a: "isDataRead s dataID
        \<and> data_dimensions (datas s (toData context)) = dimensions s \<and> 0 < dimensions s
        \<and> data_dimensions (datas s (fromData context)) = dimensions s"
    and b: "\<forall>i < nat size'. 0 \<le> valueIndices i
              \<and> valueIndices i
                  < int (length (data_values (datas s (toData context)))) sdiv dimensions s"
  show "\<exists>out'. readBlockVectorData E dataID size' valueIndices out s = (Inr (), out')"
    by (rule readBlockVectorData_ok[OF c]) (use a b in simp_all)
next
  assume a: "isDataRead s dataID \<and> data_dimensions (datas s (toData context)) = 1"
    and b: "0 \<le> valueIndex
           \<and> valueIndex < int (length (data_values (datas s (toData context))))"
  show "readScalarData dataID valueIndex v s
               = (Inr (), data_values (datas s (toData context)) ! nat valueIndex)"
    by (rule readScalarData_ok[OF c]) (use a b in simp_all)
next
  assume a: "isDataRead s dataID \<and> data_dimensions (datas s (toData context)) = 1"
    and b: "\<forall>i < nat size'. 0 \<le> valueIndices i
              \<and> valueIndices i < int (length (data_values (datas s (toData context))))"
  show "\<exists>out'. readBlockScalarData dataID size' valueIndices out s = (Inr (), out')"
    by (rule readBlockScalarData_ok[OF c]) (use a b in simp_all)
qed

text \<open>
  The theorem at the example session.  The data 0 (\<open>Forces\<close>) is written and has the
  dimension of the session, so the scalar write fails and the vector write at the vertex 1
  succeeds; the data 1 (\<open>Pressure\<close>) is read and scalar, so the vector read fails and the
  scalar read returns the value at the vertex 1.
\<close>

theorem data_arity_witness:
  "dataContexts (accessor demo) 0 = Some demoWriteContext
   \<and> (\<exists>msg. writeScalarData 0 0 5 demo = (Inl (UsageError, msg), demo))
   \<and> (\<exists>s'. writeVectorData 0 1 (\<lambda>i. 9) demo = (Inr (), s'))
   \<and> dataContexts (accessor demo) 1 = Some demoReadContext
   \<and> (\<exists>msg. readVectorData 1 0 (\<lambda>i. 0) demo = (Inl (UsageError, msg), (\<lambda>i. 0)))
   \<and> readScalarData 1 1 0 demo = (Inr (), 7)"
proof -
  have h0: "dataContexts (accessor demo) 0 = Some demoWriteContext"
    by (simp add: demo_def demoParticipant_def)
  have h1: "dataContexts (accessor demo) 1 = Some demoReadContext"
    by (simp add: demo_def demoParticipant_def)
  note t0 = data_arity[OF h0, where valueIndex = 1 and val = "\<lambda>i. 9" and v = 5 and size' = 0
              and E = demoE and valueIndices = "\<lambda>i. 0" and vals = "\<lambda>i. 0" and out = "\<lambda>i. 0"]
  note t0' = data_arity[OF h0, where valueIndex = 0 and val = "\<lambda>i. 9" and v = 5 and size' = 0
              and E = demoE and valueIndices = "\<lambda>i. 0" and vals = "\<lambda>i. 0" and out = "\<lambda>i. 0"]
  note t1 = data_arity[OF h1, where valueIndex = 0 and val = "\<lambda>i. 0" and v = 0 and size' = 0
              and E = demoE and valueIndices = "\<lambda>i. 0" and vals = "\<lambda>i. 0" and out = "\<lambda>i. 0"]
  note t1' = data_arity[OF h1, where valueIndex = 1 and val = "\<lambda>i. 0" and v = 0 and size' = 0
              and E = demoE and valueIndices = "\<lambda>i. 0" and vals = "\<lambda>i. 0" and out = "\<lambda>i. 0"]
  have p2: "data_dimensions (datas demo (fromData demoWriteContext)) \<noteq> 1"
    by (simp add: demo_defs)
  have a: "\<exists>msg. writeScalarData 0 0 5 demo = (Inl (UsageError, msg), demo)"
    by (rule t0'[THEN conjunct2, THEN conjunct1, rule_format, OF p2, THEN conjunct1])
  have p5: "isDataWrite demo 0
        \<and> data_dimensions (datas demo (fromData demoWriteContext)) = dimensions demo
        \<and> 0 < dimensions demo"
    by (simp add: isDataWrite_def demo_defs)
  have q5: "0 \<le> (1::int)
        \<and> 1 < int (length (data_values (datas demo (fromData demoWriteContext)))) sdiv dimensions demo"
    by (simp add: demo_defs signed_divide_int_def)
  have b: "\<exists>s'. writeVectorData 0 1 (\<lambda>i. 9) demo = (Inr (), s')"
    by (rule t0[THEN conjunct2, THEN conjunct2, THEN conjunct2, THEN conjunct2, THEN conjunct1,
                rule_format, OF p5, THEN conjunct1, rule_format, OF q5])
  have p3: "data_dimensions (datas demo (toData demoReadContext)) \<noteq> dimensions demo"
    by (simp add: demo_defs)
  have d: "\<exists>msg. readVectorData 1 0 (\<lambda>i. 0) demo = (Inl (UsageError, msg), (\<lambda>i. 0))"
    by (rule t1[THEN conjunct2, THEN conjunct2, THEN conjunct1, rule_format, OF p3,
                THEN conjunct1])
  have p8: "isDataRead demo 1 \<and> data_dimensions (datas demo (toData demoReadContext)) = 1"
    by (simp add: isDataRead_def demo_defs)
  have q8: "0 \<le> (1::int)
        \<and> 1 < int (length (data_values (datas demo (toData demoReadContext))))"
    by (simp add: demo_defs)
  have e: "data_values (datas demo (toData demoReadContext)) ! nat 1 = 7"
    by (simp add: demo_defs)
  have f: "readScalarData 1 1 0 demo
             = (Inr (), data_values (datas demo (toData demoReadContext)) ! nat 1)"
    by (rule t1'[THEN conjunct2, THEN conjunct2, THEN conjunct2, THEN conjunct2, THEN conjunct2,
                 THEN conjunct2, THEN conjunct2, rule_format, OF p8, THEN conjunct1,
                 rule_format, OF q8])
  have g: "readScalarData 1 1 0 demo = (Inr (), 7)"
    using f by (simp only: e)
  show ?thesis by (intro conjI h0 a b h1 d g)
qed

text \<open>
  Claim C7 as stated fails.  In the example session the data 0 has the dimension of the
  session, and the scalar block write of size 0 on it returns normally; the data 1 has
  dimensionality 1, and the vector block read of size 0 on it returns normally.  And an
  operation of matching arity need not succeed: the scalar read of the scalar data 1 at
  the index 5, beyond its two values, fails.
\<close>

theorem data_arity_counterexample:
  "dataContexts (accessor demo) 0 = Some demoWriteContext
   \<and> data_dimensions (datas demo 0) = dimensions demo
   \<and> writeBlockScalarData demoE 0 0 (\<lambda>i. 0) (\<lambda>i. 0) demo = (Inr (), demo)
   \<and> dataContexts (accessor demo) 1 = Some demoReadContext
   \<and> data_dimensions (datas demo 1) = 1
   \<and> dimensions demo = 2
   \<and> fst (readBlockVectorData demoE 1 0 (\<lambda>i. 0) (\<lambda>i. 0) demo) = Inr ()
   \<and> fst (readScalarData 1 5 0 demo) = Inl (UsageError, ''Value index out of range'')"
proof (intro conjI)
  show "dataContexts (accessor demo) 0 = Some demoWriteContext"
    "dataContexts (accessor demo) 1 = Some demoReadContext"
    by (simp_all add: demo_def demoParticipant_def)
  show "data_dimensions (datas demo 0) = dimensions demo" "data_dimensions (datas demo 1) = 1"
    "dimensions demo = 2"
    by (simp_all add: demo_def)
  show "writeBlockScalarData demoE 0 0 (\<lambda>i. 0) (\<lambda>i. 0) demo = (Inr (), demo)"
    by (simp add: writeBlockScalarData_def PRECICE_VALIDATE_DATA_ID_def demo_def demoParticipant_def)
  show "fst (readBlockVectorData demoE 1 0 (\<lambda>i. 0) (\<lambda>i. 0) demo) = Inr ()"
    by (simp add: readBlockVectorData_def PRECICE_VALIDATE_DATA_ID_def demo_def demoParticipant_def)
  show "fst (readScalarData 1 5 0 demo) = Inl (UsageError, ''Value index out of range'')"
    by (simp add: readScalarData_def PRECICE_VALIDATE_DATA_ID_def PRECICE_REQUIRE_DATA_READ_def
          isDataRead_def Let_def demo_defs)
qed


subsection \<open>The order of the partition exchange\<close>

text \<open>
  Claim C5.  \<open>computePartitions\<close> first communicates every used mesh, in ascending order of
  the mesh names; it then puts the provided meshes before the received ones, keeping the name
  order inside each group, and in that order computes the partition, computes the mesh state
  and allocates the data values of every mesh.  The participant keeps its mesh contexts in
  this final order.  When the names are pairwise different, the communication order is the
  only arrangement of the used meshes that is sorted by name, so every rank that uses the
  same meshes communicates them in the same order.
\<close>

theorem computePartitions_order:
  "\<exists>comm.
      mset comm = mset (usedMeshContexts (accessor s))
    \<and> sorted (map (\<lambda>c. mesh_name (meshes s (mesh c))) comm)
    \<and> trace (computePartitions s)
        = trace s
          @ map (\<lambda>c. Partition_communicate (mesh c)) comm
          @ concat (map (\<lambda>c. [Partition_compute (mesh c), Mesh_computeState (mesh c),
                                Mesh_allocateDataValues (mesh c)])
                     (filter provideMesh comm @ filter (\<lambda>c. \<not> provideMesh c) comm))
    \<and> usedMeshContexts (accessor (computePartitions s))
        = filter provideMesh comm @ filter (\<lambda>c. \<not> provideMesh c) comm
    \<and> (\<forall>ys. distinct (map (\<lambda>c. mesh_name (meshes s (mesh c))) (usedMeshContexts (accessor s)))
             \<and> mset ys = mset (usedMeshContexts (accessor s))
             \<and> sorted (map (\<lambda>c. mesh_name (meshes s (mesh c))) ys)
           \<longrightarrow> ys = comm)"
proof (intro exI[of _ "sort_key (\<lambda>c. mesh_name (meshes s (mesh c))) (usedMeshContexts (accessor s))"]
         conjI allI impI)
  show "mset (sort_key (\<lambda>c. mesh_name (meshes s (mesh c))) (usedMeshContexts (accessor s)))
          = mset (usedMeshContexts (accessor s))"
    by simp
  show "sorted (map (\<lambda>c. mesh_name (meshes s (mesh c)))
          (sort_key (\<lambda>c. mesh_name (meshes s (mesh c))) (usedMeshContexts (accessor s))))"
    by (rule sorted_sort_key)
  show "trace (computePartitions s)
        = trace s
          @ map (\<lambda>c. Partition_communicate (mesh c))
              (sort_key (\<lambda>c. mesh_name (meshes s (mesh c))) (usedMeshContexts (accessor s)))
          @ concat (map (\<lambda>c. [Partition_compute (mesh c), Mesh_computeState (mesh c),
                                Mesh_allocateDataValues (mesh c)])
                     (filter provideMesh
                        (sort_key (\<lambda>c. mesh_name (meshes s (mesh c))) (usedMeshContexts (accessor s)))
                      @ filter (\<lambda>c. \<not> provideMesh c)
                          (sort_key (\<lambda>c. mesh_name (meshes s (mesh c))) (usedMeshContexts (accessor s)))))"
    using computePartitions_trace[of s] by (simp only: stable_partition_def)
  show "usedMeshContexts (accessor (computePartitions s))
        = filter provideMesh
            (sort_key (\<lambda>c. mesh_name (meshes s (mesh c))) (usedMeshContexts (accessor s)))
          @ filter (\<lambda>c. \<not> provideMesh c)
              (sort_key (\<lambda>c. mesh_name (meshes s (mesh c))) (usedMeshContexts (accessor s)))"
    using computePartitions_sel(1)[of s] by (simp only: stable_partition_def)
next
  fix ys
  assume "distinct (map (\<lambda>c. mesh_name (meshes s (mesh c))) (usedMeshContexts (accessor s)))
             \<and> mset ys = mset (usedMeshContexts (accessor s))
             \<and> sorted (map (\<lambda>c. mesh_name (meshes s (mesh c))) ys)"
  then show "ys = sort_key (\<lambda>c. mesh_name (meshes s (mesh c))) (usedMeshContexts (accessor s))"
    by (intro sorted_unique) simp_all
qed

theorem computePartitions_order_witness:
  "distinct (map (\<lambda>c. mesh_name (meshes demo (mesh c))) (usedMeshContexts (accessor demo)))
   \<and> usedMeshContexts (accessor demo) = [demoSolid, demoFluid, demoAux]
   \<and> trace (computePartitions demo)
       = [Partition_communicate 2, Partition_communicate 0, Partition_communicate 1,
          Partition_compute 0, Mesh_computeState 0, Mesh_allocateDataValues 0,
          Partition_compute 2, Mesh_computeState 2, Mesh_allocateDataValues 2,
          Partition_compute 1, Mesh_computeState 1, Mesh_allocateDataValues 1]
   \<and> usedMeshContexts (accessor (computePartitions demo)) = [demoFluid, demoAux, demoSolid]"
proof -
  let ?name = "\<lambda>c. mesh_name (meshes demo (mesh c))"
  let ?ys = "[demoAux, demoFluid, demoSolid]"
  have u: "usedMeshContexts (accessor demo) = [demoSolid, demoFluid, demoAux]"
    by (simp add: demo_defs demoAux_def demoFluid_def demoSolid_def)
  have d: "distinct (map ?name (usedMeshContexts (accessor demo)))"
    unfolding u by (simp add: demo_defs demoAux_def demoFluid_def demoSolid_def)
  have m: "mset ?ys = mset (usedMeshContexts (accessor demo))"
    unfolding u by (simp add: add_mset_commute)
  have so: "sorted (map ?name ?ys)"
    by (simp add: demo_defs demoAux_def demoFluid_def demoSolid_def less_eq_char_def less_char_def)
  from computePartitions_order[of demo] obtain comm where c:
    "trace (computePartitions demo)
        = trace demo
          @ map (\<lambda>c. Partition_communicate (mesh c)) comm
          @ concat (map (\<lambda>c. [Partition_compute (mesh c), Mesh_computeState (mesh c),
                                Mesh_allocateDataValues (mesh c)])
                     (filter provideMesh comm @ filter (\<lambda>c. \<not> provideMesh c) comm))"
    "usedMeshContexts (accessor (computePartitions demo))
        = filter provideMesh comm @ filter (\<lambda>c. \<not> provideMesh c) comm"
    "\<forall>ys. distinct (map ?name (usedMeshContexts (accessor demo)))
             \<and> mset ys = mset (usedMeshContexts (accessor demo))
             \<and> sorted (map ?name ys)
           \<longrightarrow> ys = comm"
    by blast
  have e: "?ys = comm"
    by (rule c(3)[rule_format, OF conjI[OF d conjI[OF m so]]])
  have t: "trace (computePartitions demo)
       = [Partition_communicate 2, Partition_communicate 0, Partition_communicate 1,
          Partition_compute 0, Mesh_computeState 0, Mesh_allocateDataValues 0,
          Partition_compute 2, Mesh_computeState 2, Mesh_allocateDataValues 2,
          Partition_compute 1, Mesh_computeState 1, Mesh_allocateDataValues 1]"
    unfolding c(1) e[symmetric]
    by (simp add: demoAux_def demoFluid_def demoSolid_def) (simp add: demo_def)
  have v: "usedMeshContexts (accessor (computePartitions demo)) = [demoFluid, demoAux, demoSolid]"
    unfolding c(2) e[symmetric]
    by (simp add: demoAux_def demoFluid_def demoSolid_def)
  show ?thesis by (intro conjI d u t v)
qed


subsection \<open>A second call of initialize\<close>





subsection \<open>The order of finalize\<close>





subsection \<open>The order of advance\<close>

text \<open>
  Claim C1, as amended.  Take an initialized session with an ongoing coupling, whose scheme
  accepts \<open>addComputedTime\<close> and \<open>advance\<close>, whose mapping contexts all hold a mapping object,
  whose export intervals are not zero, and in which the synchronisation passes.  Then
  \<open>advance\<close> returns, and its calls are exactly these, in this order: the synchronisation of
  the timestep, which is empty in a build with \<open>NDEBUG\<close> and on a rank that is neither master
  nor slave; \<open>addComputedTime\<close>; the write-side dispatch \<open>mapWrittenData\<close>; the actions
  before the exchange, called with the time of the scheme, the computed length, the part
  \<open>timestepLength - remainder\<close> and \<open>timestepLength\<close> (the fixed length of the scheme if it
  has one, else the computed length); \<open>advance\<close> of the scheme; the actions after the exchange,
  with the same arguments; the read-side dispatch \<open>mapReadData\<close>, if data has been exchanged,
  and nothing otherwise; the exports; the locking of all meshes.  The value returned is the
  next timestep length of the scheme as it is at the end, which is the scheme after its
  \<open>advance\<close> up to calls of \<open>requireAction\<close>.
\<close>

theorem advance_sequence:
  fixes s :: "'c SolverInterfaceImpl"
  assumes "couplingScheme s = Some c"
    and "cs_isInitialized V c" and "cs_isCouplingOngoing V c"
    and "syncAgrees E dt s"
    and "cs_addComputedTime V dt c = Inr c1"
    and "cs_advance V c1 = Inr c2"
    and "\<forall>a\<in>set (writeMappingContexts (accessor s)). mapping (mappingContexts s a) \<noteq> None"
    and "\<forall>a\<in>set (readMappingContexts (accessor s)). mapping (mappingContexts s a) \<noteq> None"
    and "\<forall>x\<in>set (exportContexts (accessor s)). timestepInterval x \<noteq> 0"
  shows "let timestepLength = (if cs_hasTimestepLength V c1 then cs_getTimestepLength V c1 else dt);
             timestepPart = timestepLength - cs_getThisTimestepRemainder V c1;
             prior = actionEvents
                       ({ALWAYS_PRIOR} \<union> (if cs_willDataBeExchanged V 0 c1 then {ON_EXCHANGE_PRIOR} else {}))
                       (cs_getTime V c1) dt timestepPart timestepLength (actions (accessor s));
             post = actionEvents
                      ({ALWAYS_POST} \<union> (if cs_hasDataBeenExchanged V c2 then {ON_EXCHANGE_POST} else {})
                         \<union> (if cs_isCouplingTimestepComplete V c2 then {ON_TIMESTEP_COMPLETE_POST} else {}))
                      (cs_getTime V c1) dt timestepPart timestepLength (actions (accessor s))
         in \<exists>s3 s7 s8 c3 W R X.
      mapWrittenData (emit (syncEvents E dt s @ [Cpl_addComputedTime dt])
                        (s\<lparr>numberAdvanceCalls := numberAdvanceCalls s + 1,
                           couplingScheme := Some c1\<rparr>)) = (Inr (), s3)
    \<and> trace s3 = trace s @ syncEvents E dt s @ [Cpl_addComputedTime dt] @ W
    \<and> list_all isDispatchEvent W
    \<and> (if cs_hasDataBeenExchanged V c2
        then mapReadData (emit (prior @ [Cpl_advance] @ post) (s3\<lparr>couplingScheme := Some c2\<rparr>))
        else (Inr (), emit (prior @ [Cpl_advance] @ post) (s3\<lparr>couplingScheme := Some c2\<rparr>)))
         = (Inr (), s7)
    \<and> trace s7 = trace s3 @ prior @ [Cpl_advance] @ post @ R
    \<and> list_all isDispatchEvent R
    \<and> (cs_hasDataBeenExchanged V c2 \<or> R = [])
    \<and> handleExports V s7 = (Inr (), s8)
    \<and> trace s8 = trace s7 @ X
    \<and> list_all isExportEvent X
    \<and> couplingScheme s8 = Some c3
    \<and> (\<exists>k. c3 = (cs_requireAction V ''plot-output'' ^^ k) c2)
    \<and> advance E V dt s = (Inr (cs_getNextTimestepMaxLength V c3), lockAll s8)
    \<and> trace (lockAll s8) = trace s @ syncEvents E dt s @ [Cpl_addComputedTime dt] @ W
                               @ prior @ [Cpl_advance] @ post @ R @ X @ [MeshLock_lockAll]"
  unfolding Let_def by (rule advance_runs[OF assms refl refl refl])

theorem advance_sequence_witness:
  "couplingScheme demoRunning = Some demoStarted
   \<and> cs_isInitialized demoV demoStarted \<and> cs_isCouplingOngoing demoV demoStarted
   \<and> syncAgrees demoE 1 demoRunning
   \<and> cs_addComputedTime demoV 1 demoStarted = Inr demoAdded
   \<and> cs_advance demoV demoAdded = Inr demoAdvanced
   \<and> (\<exists>s' W R X.
         advance demoE demoV 1 demoRunning = (Inr 1, s')
       \<and> trace s' = [MS_receive 1 1, Cpl_addComputedTime 1] @ W
                    @ [Action_performAction 0 1 1 1 1, Cpl_advance,
                       Action_performAction 1 1 1 1 1, Action_performAction 2 1 1 1 1]
                    @ R @ X @ [MeshLock_lockAll]
       \<and> list_all isDispatchEvent W \<and> list_all isDispatchEvent R \<and> list_all isExportEvent X)"
proof -
  have sy: "syncAgrees demoE 1 demoRunning"
    by (simp add: syncAgrees_def demo_advance_facts(7) demo_env_facts)
  have se: "syncEvents demoE 1 demoRunning = [MS_receive 1 1]"
    by (simp add: syncEvents_def demo_advance_facts(7) demo_env_facts demoRunning_facts)
  have pr: "actionEvents
              ({ALWAYS_PRIOR} \<union> (if cs_willDataBeExchanged demoV 0 demoAdded then {ON_EXCHANGE_PRIOR} else {}))
              (cs_getTime demoV demoAdded) 1
              ((if cs_hasTimestepLength demoV demoAdded then cs_getTimestepLength demoV demoAdded else 1)
                 - cs_getThisTimestepRemainder demoV demoAdded)
              (if cs_hasTimestepLength demoV demoAdded then cs_getTimestepLength demoV demoAdded else 1)
              (actions (accessor demoRunning))
            = [Action_performAction 0 1 1 1 1]"
    unfolding demo_advance_facts(10) by (simp add: actionEvents_def demoV_def demoAdded_def)
  have po: "actionEvents
              ({ALWAYS_POST} \<union> (if cs_hasDataBeenExchanged demoV demoAdvanced then {ON_EXCHANGE_POST} else {})
                 \<union> (if cs_isCouplingTimestepComplete demoV demoAdvanced then {ON_TIMESTEP_COMPLETE_POST} else {}))
              (cs_getTime demoV demoAdded) 1
              ((if cs_hasTimestepLength demoV demoAdded then cs_getTimestepLength demoV demoAdded else 1)
                 - cs_getThisTimestepRemainder demoV demoAdded)
              (if cs_hasTimestepLength demoV demoAdded then cs_getTimestepLength demoV demoAdded else 1)
              (actions (accessor demoRunning))
            = [Action_performAction 1 1 1 1 1, Action_performAction 2 1 1 1 1]"
    unfolding demo_advance_facts(10)
    by (simp add: actionEvents_def demoV_def demoAdded_def demoAdvanced_def)
  note t = advance_sequence[OF demoRunning_facts(1) demo_scheme(5) demo_advance_facts(1) sy
             demo_advance_facts(2,3,4,5,6), unfolded Let_def pr po se]
  from t obtain s8 c3 W R X where r:
    "\<exists>k. c3 = (cs_requireAction demoV ''plot-output'' ^^ k) demoAdvanced"
    "advance demoE demoV 1 demoRunning = (Inr (cs_getNextTimestepMaxLength demoV c3), lockAll s8)"
    "trace (lockAll s8) = trace demoRunning @ [MS_receive 1 1] @ [Cpl_addComputedTime 1] @ W
                               @ [Action_performAction 0 1 1 1 1] @ [Cpl_advance]
                               @ [Action_performAction 1 1 1 1 1, Action_performAction 2 1 1 1 1]
                               @ R @ X @ [MeshLock_lockAll]"
    "list_all isDispatchEvent W" "list_all isDispatchEvent R" "list_all isExportEvent X"
    by blast
  from r(1) have c3: "c3 = demoAdvanced" by (simp add: demo_requireAction)
  have "\<exists>s' W R X.
         advance demoE demoV 1 demoRunning = (Inr 1, s')
       \<and> trace s' = [MS_receive 1 1, Cpl_addComputedTime 1] @ W
                    @ [Action_performAction 0 1 1 1 1, Cpl_advance,
                       Action_performAction 1 1 1 1 1, Action_performAction 2 1 1 1 1]
                    @ R @ X @ [MeshLock_lockAll]
       \<and> list_all isDispatchEvent W \<and> list_all isDispatchEvent R \<and> list_all isExportEvent X"
    apply (rule exI[of _ "lockAll s8"], rule exI[of _ W], rule exI[of _ R], rule exI[of _ X])
    using r(2-6) by (simp add: c3 demo_advance_facts(8) demoRunning_facts(5))
  then show ?thesis
    by (intro conjI demoRunning_facts(1) demo_scheme(5) demo_advance_facts(1,2,3) sy)
qed

text \<open>
  The master of the two ranks of the example in a build with \<open>NDEBUG\<close>: the first call of
  \<open>advance\<close> is \<open>addComputedTime\<close>, and nothing is received from the slave.
\<close>

theorem advance_release_counterexample:
  "NDEBUG demoRelease \<and> isMaster demoRunning \<and> accessorCommunicatorSize demoRunning = 2
   \<and> fst (advance demoRelease demoV 1 demoRunning) = Inr 1
   \<and> trace (snd (advance demoRelease demoV 1 demoRunning)) =
     [Cpl_addComputedTime 1,
      Mapping_computeMapping 0, Data_zeroValues 2, Mapping_map 0 0 2,
      Action_performAction 0 1 1 1 1,
      Cpl_advance,
      Action_performAction 1 1 1 1 1, Action_performAction 2 1 1 1 1,
      Mapping_computeMapping 1, Data_zeroValues 1, Mapping_map 1 3 1, Mapping_clear 1,
      Export_doExport ''Solid-SolverOne.dt1'' ''out'' 1,
      Export_doExport ''Fluid-SolverOne.dt1'' ''out'' 0,
      Export_doExport ''Aux-SolverOne.dt1'' ''out'' 2,
      WatchPoint_exportPointData 0 1,
      MeshLock_lockAll]"
  by (simp add: advance_def demoRunning_def demo_defs demoStarted_def demoRelease_def demoV_def
        Let_def dispatch_defs performDataActions_def handleExports_def exportMesh_def
        lockAll_def printInt_def decimalDigits.simps signed_modulo_int_def)


subsection \<open>The synchronisation of the timestep\<close>

text \<open>
  Claim C2, as amended.  On the master of an initialized session with an ongoing coupling:
  in a build without \<open>NDEBUG\<close>, if the length received from some slave is not equal, in the
  sense of \<open>math::equals\<close>, to the length the master passes, \<open>advance\<close> fails with the
  protocol error, having received from the slaves up to the first that differs, and the
  scheme is as before the call; in a build without \<open>NDEBUG\<close>, if all lengths received are
  equal to the master's and the remaining steps return, \<open>advance\<close> returns, having received
  from every slave before \<open>addComputedTime\<close>; in a build with \<open>NDEBUG\<close> nothing is received
  or compared, and \<open>advance\<close> returns whenever the remaining steps return.
\<close>

theorem advance_sync:
  fixes s :: "'c SolverInterfaceImpl"
  assumes "couplingScheme s = Some c"
    and "cs_isInitialized V c" and "cs_isCouplingOngoing V c"
    and "isMaster s" and "\<not> isSlave s"
  shows "(\<not> NDEBUG E \<and> \<not> list_all (\<lambda>r. math_equals E (ms_receive E r) dt) (syncRanks s) \<longrightarrow>
            (\<exists>s'. advance E V dt s = (Inl ambiguousTimestep, s')
                 \<and> couplingScheme s' = Some c
                 \<and> trace s' = trace s @ map (\<lambda>r. MS_receive (ms_receive E r) r)
                      (takeWhile (\<lambda>r. math_equals E (ms_receive E r) dt) (syncRanks s)
                       @ [hd (dropWhile (\<lambda>r. math_equals E (ms_receive E r) dt) (syncRanks s))])))
       \<and> (\<not> NDEBUG E \<and> list_all (\<lambda>r. math_equals E (ms_receive E r) dt) (syncRanks s)
            \<and> stepsReturn V dt s \<longrightarrow>
            (\<exists>r s' rest. advance E V dt s = (Inr r, s')
                 \<and> trace s' = trace s @ map (\<lambda>r. MS_receive (ms_receive E r) r) (syncRanks s)
                               @ [Cpl_addComputedTime dt] @ rest))
       \<and> (NDEBUG E \<and> stepsReturn V dt s \<longrightarrow>
            (\<exists>r s' rest. advance E V dt s = (Inr r, s')
                 \<and> trace s' = trace s @ [Cpl_addComputedTime dt] @ rest))"
proof -
  have run: "\<exists>r s' rest. advance E V dt s = (Inr r, s')
                 \<and> trace s' = trace s @ syncEvents E dt s @ [Cpl_addComputedTime dt] @ rest"
    if sr: "stepsReturn V dt s" and sy: "syncAgrees E dt s"
  proof -
    from sr assms(1) obtain c1 c2 where
      a: "cs_addComputedTime V dt c = Inr c1" "cs_advance V c1 = Inr c2"
      by (auto simp: stepsReturn_def split: sum.splits)
    from sr have w: "\<forall>a\<in>set (writeMappingContexts (accessor s)). mapping (mappingContexts s a) \<noteq> None"
      "\<forall>a\<in>set (readMappingContexts (accessor s)). mapping (mappingContexts s a) \<noteq> None"
      "\<forall>x\<in>set (exportContexts (accessor s)). timestepInterval x \<noteq> 0"
      by (auto simp: stepsReturn_def list_all_iff)
    from advance_runs[OF assms(1,2,3) sy a w refl refl refl]
    show ?thesis by blast
  qed
  have a: "\<not> NDEBUG E \<and> \<not> list_all (\<lambda>r. math_equals E (ms_receive E r) dt) (syncRanks s) \<longrightarrow>
            (\<exists>s'. advance E V dt s = (Inl ambiguousTimestep, s')
                 \<and> couplingScheme s' = Some c
                 \<and> trace s' = trace s @ map (\<lambda>r. MS_receive (ms_receive E r) r)
                      (takeWhile (\<lambda>r. math_equals E (ms_receive E r) dt) (syncRanks s)
                       @ [hd (dropWhile (\<lambda>r. math_equals E (ms_receive E r) dt) (syncRanks s))]))"
  proof (intro impI, elim conjE)
    assume n: "\<not> NDEBUG E" and m: "\<not> list_all (\<lambda>r. math_equals E (ms_receive E r) dt) (syncRanks s)"
    show "\<exists>s'. advance E V dt s = (Inl ambiguousTimestep, s')
                 \<and> couplingScheme s' = Some c
                 \<and> trace s' = trace s @ map (\<lambda>r. MS_receive (ms_receive E r) r)
                      (takeWhile (\<lambda>r. math_equals E (ms_receive E r) dt) (syncRanks s)
                       @ [hd (dropWhile (\<lambda>r. math_equals E (ms_receive E r) dt) (syncRanks s))])"
      unfolding advance_mismatch[OF assms(1,2,3) n assms(4,5) m]
      by (simp add: assms(1))
  qed
  have b: "\<not> NDEBUG E \<and> list_all (\<lambda>r. math_equals E (ms_receive E r) dt) (syncRanks s)
            \<and> stepsReturn V dt s \<longrightarrow>
            (\<exists>r s' rest. advance E V dt s = (Inr r, s')
                 \<and> trace s' = trace s @ map (\<lambda>r. MS_receive (ms_receive E r) r) (syncRanks s)
                               @ [Cpl_addComputedTime dt] @ rest)"
  proof (intro impI, elim conjE)
    assume n: "\<not> NDEBUG E" and m: "list_all (\<lambda>r. math_equals E (ms_receive E r) dt) (syncRanks s)"
      and sr: "stepsReturn V dt s"
    have e: "syncEvents E dt s = map (\<lambda>r. MS_receive (ms_receive E r) r) (syncRanks s)"
      using n assms(4,5) by (simp add: syncEvents_def)
    from run[OF sr] m show "\<exists>r s' rest. advance E V dt s = (Inr r, s')
                 \<and> trace s' = trace s @ map (\<lambda>r. MS_receive (ms_receive E r) r) (syncRanks s)
                               @ [Cpl_addComputedTime dt] @ rest"
      unfolding e[symmetric] by (simp add: syncAgrees_def)
  qed
  have c: "NDEBUG E \<and> stepsReturn V dt s \<longrightarrow>
            (\<exists>r s' rest. advance E V dt s = (Inr r, s')
                 \<and> trace s' = trace s @ [Cpl_addComputedTime dt] @ rest)"
  proof (intro impI, elim conjE)
    assume n: "NDEBUG E" and sr: "stepsReturn V dt s"
    have e: "syncEvents E dt s = []" using n by (simp add: syncEvents_def)
    from run[OF sr] n show "\<exists>r s' rest. advance E V dt s = (Inr r, s')
                 \<and> trace s' = trace s @ [Cpl_addComputedTime dt] @ rest"
      by (simp add: syncAgrees_def e)
  qed
  show ?thesis by (intro conjI a b c)
qed

theorem advance_sync_witness:
  "couplingScheme demoRunning = Some demoStarted
   \<and> cs_isInitialized demoV demoStarted \<and> cs_isCouplingOngoing demoV demoStarted
   \<and> isMaster demoRunning \<and> \<not> isSlave demoRunning
   \<and> syncRanks demoRunning = [1]
   \<and> \<not> NDEBUG demoE
   \<and> \<not> math_equals demoE (ms_receive demoE 1) 2
   \<and> (\<exists>s'. advance demoE demoV 2 demoRunning = (Inl ambiguousTimestep, s')
          \<and> couplingScheme s' = Some demoStarted \<and> trace s' = [MS_receive 1 1])
   \<and> math_equals demoE (ms_receive demoE 1) 1
   \<and> stepsReturn demoV 1 demoRunning
   \<and> (\<exists>r s' rest. advance demoE demoV 1 demoRunning = (Inr r, s')
          \<and> trace s' = [MS_receive 1 1, Cpl_addComputedTime 1] @ rest)
   \<and> NDEBUG demoRelease
   \<and> (\<exists>r s' rest. advance demoRelease demoV 1 demoRunning = (Inr r, s')
          \<and> trace s' = [Cpl_addComputedTime 1] @ rest)"
proof -
  note h = demoRunning_facts(1) demo_scheme(5) demo_advance_facts(1) demoRunning_facts(8,9)
  have m: "\<not> NDEBUG demoE \<and> \<not> list_all (\<lambda>r. math_equals demoE (ms_receive demoE r) 2) (syncRanks demoRunning)"
    by (simp add: demo_advance_facts(7) demo_env_facts)
  have a: "\<exists>s'. advance demoE demoV 2 demoRunning = (Inl ambiguousTimestep, s')
          \<and> couplingScheme s' = Some demoStarted \<and> trace s' = [MS_receive 1 1]"
    using advance_sync[OF h, of demoE 2, THEN conjunct1, rule_format, OF m]
    by (simp add: demo_advance_facts(7) demo_env_facts demoRunning_facts(5))
  have k: "\<not> NDEBUG demoE \<and> list_all (\<lambda>r. math_equals demoE (ms_receive demoE r) 1) (syncRanks demoRunning)
            \<and> stepsReturn demoV 1 demoRunning"
    by (simp add: demo_advance_facts(7,11) demo_env_facts)
  have b: "\<exists>r s' rest. advance demoE demoV 1 demoRunning = (Inr r, s')
          \<and> trace s' = [MS_receive 1 1, Cpl_addComputedTime 1] @ rest"
    using advance_sync[OF h, of demoE 1, THEN conjunct2, THEN conjunct1, rule_format, OF k]
    by (simp add: demo_advance_facts(7) demo_env_facts demoRunning_facts(5))
  have n: "NDEBUG demoRelease \<and> stepsReturn demoV 1 demoRunning"
    by (simp add: demo_advance_facts(11) demo_env_facts)
  have c: "\<exists>r s' rest. advance demoRelease demoV 1 demoRunning = (Inr r, s')
          \<and> trace s' = [Cpl_addComputedTime 1] @ rest"
    using advance_sync[OF h, of demoRelease 1, THEN conjunct2, THEN conjunct2, rule_format, OF n]
    by (simp add: demoRunning_facts(5))
  have e: "\<not> math_equals demoE (ms_receive demoE 1) 2" "math_equals demoE (ms_receive demoE 1) 1"
    by (simp_all add: demo_env_facts)
  show ?thesis
    by (intro conjI h demo_advance_facts(7) demo_env_facts(1,2) e demo_advance_facts(11) a b c)
qed

text \<open>
  A build with \<open>NDEBUG\<close>: the slave of the example would send 2 and the master passes 1, yet
  \<open>advance\<close> returns on the master and the scheme has advanced.
\<close>

theorem advance_sync_counterexample:
  "NDEBUG demoRelease \<and> isMaster demoRunning \<and> syncRanks demoRunning = [1]
   \<and> \<not> math_equals demoRelease (ms_receive demoRelease 1) 1
   \<and> fst (advance demoRelease demoV 1 demoRunning) = Inr 1
   \<and> couplingScheme (snd (advance demoRelease demoV 1 demoRunning)) = Some demoAdvanced"
proof -
  have e: "\<not> math_equals demoRelease (ms_receive demoRelease 1) 1"
    by (simp add: demo_env_facts)
  have r: "fst (advance demoRelease demoV 1 demoRunning) = Inr 1
     \<and> couplingScheme (snd (advance demoRelease demoV 1 demoRunning)) = Some demoAdvanced"
    by (simp add: advance_def demoRunning_def demo_defs demoStarted_def demoRelease_def demoV_def
          Let_def dispatch_defs performDataActions_def handleExports_def exportMesh_def
          lockAll_def printInt_def decimalDigits.simps signed_modulo_int_def demoAdvanced_def)
  from r show ?thesis
    by (intro conjI demo_env_facts(2) demoRunning_facts(8) demo_advance_facts(7) e) simp_all
qed

end
